theory Spec2Isabelle
  imports Main "HOL-Library.Monad_Syntax"
begin

section \<open>C integer arithmetic\<close>

text \<open>
  The repository holds two C programs, \<^verbatim>\<open>finite.c\<close> and \<^verbatim>\<open>main.c\<close>, which run the same
  erasure-recovery pipeline over the integers modulo 17 and over the complex integers. Both
  compute on the C type \<^verbatim>\<open>int\<close>, taken here as the 32-bit two's complement type.

  A value of type \<^verbatim>\<open>int\<close> is an \<^typ>\<open>int\<close>, and every arithmetic operator is a function
  into \<^typ>\<open>int option\<close> that checks its result against the range of the type. \<open>None\<close>
  stands for every way in which a C run does not deliver a value: signed overflow and
  division by zero (both undefined behaviour in C), a read outside an array, and a failed
  \<^verbatim>\<open>assert\<close> (assertions are enabled). A result \<open>Some v\<close> therefore says that the run is
  defined and returns \<open>v\<close>, whatever a compiler does with undefined behaviour.
\<close>

definition INT_MIN :: int where
  "INT_MIN = - 2147483648"

definition INT_MAX :: int where
  "INT_MAX = 2147483647"

definition in_range :: "int \<Rightarrow> bool" where
  "in_range x \<longleftrightarrow> INT_MIN \<le> x \<and> x \<le> INT_MAX"

definition checked :: "int \<Rightarrow> int option" where
  "checked x = (if in_range x then Some x else None)"

text \<open>C's \<^verbatim>\<open>/\<close> and \<^verbatim>\<open>%\<close> truncate towards zero.\<close>

definition trunc_quot :: "int \<Rightarrow> int \<Rightarrow> int" where
  "trunc_quot a b = sgn a * sgn b * (\<bar>a\<bar> div \<bar>b\<bar>)"

definition trunc_rem :: "int \<Rightarrow> int \<Rightarrow> int" where
  "trunc_rem a b = sgn a * (\<bar>a\<bar> mod \<bar>b\<bar>)"

definition int_add :: "int \<Rightarrow> int \<Rightarrow> int option" where
  "int_add a b = checked (a + b)"

definition int_sub :: "int \<Rightarrow> int \<Rightarrow> int option" where
  "int_sub a b = checked (a - b)"

definition int_mul :: "int \<Rightarrow> int \<Rightarrow> int option" where
  "int_mul a b = checked (a * b)"

definition int_neg :: "int \<Rightarrow> int option" where
  "int_neg a = checked (- a)"

definition int_div :: "int \<Rightarrow> int \<Rightarrow> int option" where
  "int_div a b = (if b = 0 then None else checked (trunc_quot a b))"

definition int_mod :: "int \<Rightarrow> int \<Rightarrow> int option" where
  "int_mod a b =
     (if b = 0 then None
      else if a = INT_MIN \<and> b = - 1 then None
      else Some (trunc_rem a b))"

text \<open>\<^verbatim>\<open>assert(c)\<close>: the run goes on when \<open>c\<close> holds and aborts otherwise.\<close>

definition assert_c :: "bool \<Rightarrow> unit option" where
  "assert_c c = (if c then Some () else None)"

text \<open>A read \<^verbatim>\<open>a[j]\<close> with a computed index.\<close>

definition array_read :: "'a list \<Rightarrow> int \<Rightarrow> 'a option" where
  "array_read a j = (if 0 \<le> j \<and> j < int (length a) then Some (a ! nat j) else None)"


section \<open>finite.c: the integers modulo 17\<close>

text \<open>
  The functions of \<^verbatim>\<open>finite.c\<close> carry the suffix \<open>_fin\<close>, those of \<^verbatim>\<open>main.c\<close> the suffix
  \<open>_cpx\<close>, since the two files use the same names. An array parameter \<^verbatim>\<open>int *a\<close> is a list;
  the functions read and write the indices 0 to 3, so a list shorter than that is a read
  outside the array. A function that fills an output array returns the four values it
  stores. The printing functions have no counterpart here.

  \<^verbatim>\<open>MOD\<close>, the root of unity \<^verbatim>\<open>i\<close>, and \<^verbatim>\<open>equal\<close>, \<^verbatim>\<open>neg\<close>, \<^verbatim>\<open>add\<close>, \<^verbatim>\<open>sub\<close>, \<^verbatim>\<open>mul\<close>, \<^verbatim>\<open>div\<close>
  (lines 37 to 71 of the file):
\<close>

definition MOD :: int where
  "MOD = 17"

definition i_fin :: int where
  "i_fin = 4"

definition equal_fin :: "int \<Rightarrow> int \<Rightarrow> bool option" where
  "equal_fin a b = do {
     x \<leftarrow> int_mod a MOD;
     y \<leftarrow> int_mod b MOD;
     Some (x = y)
   }"

definition neg_fin :: "int \<Rightarrow> int option" where
  "neg_fin a = int_sub MOD a"

definition add_fin :: "int \<Rightarrow> int \<Rightarrow> int option" where
  "add_fin a b = do {
     s \<leftarrow> int_add a b;
     int_mod s MOD
   }"

definition sub_fin :: "int \<Rightarrow> int \<Rightarrow> int option" where
  "sub_fin a b = do {
     n \<leftarrow> neg_fin b;
     s \<leftarrow> int_add a n;
     int_mod s MOD
   }"

definition mul_fin :: "int \<Rightarrow> int \<Rightarrow> int option" where
  "mul_fin a b = do {
     p \<leftarrow> int_mul a b;
     int_mod p MOD
   }"

definition inv_fin :: "int list" where
  "inv_fin = [0, 1, 9, 6, 13, 7, 3, 5, 15, 2, 12, 14, 10, 4, 11, 8, 16]"

definition div_fin :: "int \<Rightarrow> int \<Rightarrow> int option" where
  "div_fin a b = do {
     j \<leftarrow> int_mod b MOD;
     v \<leftarrow> array_read inv_fin j;
     p \<leftarrow> int_mul a v;
     ret \<leftarrow> int_mod p MOD;
     m \<leftarrow> mul_fin ret b;
     ok \<leftarrow> equal_fin a m;
     _ \<leftarrow> assert_c ok;
     Some ret
   }"

text \<open>
  The forward and the inverse transform, \<^verbatim>\<open>eval_from_poly\<close> and \<^verbatim>\<open>poly_from_eval\<close> (lines 75
  to 98). The local variables keep their names; \<^verbatim>\<open>mul(i, c1_m_c3)\<close> is computed twice, as in
  the source.
\<close>

definition eval_from_poly_fin :: "int list \<Rightarrow> int list option" where
  "eval_from_poly_fin coeffs =
     (if length coeffs < 4 then None
      else do {
        c0_p_c2 \<leftarrow> add_fin (coeffs ! 0) (coeffs ! 2);
        c0_m_c2 \<leftarrow> sub_fin (coeffs ! 0) (coeffs ! 2);
        c1_p_c3 \<leftarrow> add_fin (coeffs ! 1) (coeffs ! 3);
        c1_m_c3 \<leftarrow> sub_fin (coeffs ! 1) (coeffs ! 3);
        e0 \<leftarrow> add_fin c0_p_c2 c1_p_c3;
        t1 \<leftarrow> mul_fin i_fin c1_m_c3;
        e1 \<leftarrow> add_fin c0_m_c2 t1;
        e2 \<leftarrow> sub_fin c0_p_c2 c1_p_c3;
        t3 \<leftarrow> mul_fin i_fin c1_m_c3;
        e3 \<leftarrow> sub_fin c0_m_c2 t3;
        Some [e0, e1, e2, e3]
      })"

text \<open>The loop \<^verbatim>\<open>for (j = 0; j < 4; j++) coeffs[j] = div(coeffs[j], 4)\<close>, over the array.\<close>

fun div_each_fin :: "int list \<Rightarrow> int \<Rightarrow> int list option" where
  "div_each_fin [] d = Some []"
| "div_each_fin (x # xs) d = do {
     q \<leftarrow> div_fin x d;
     qs \<leftarrow> div_each_fin xs d;
     Some (q # qs)
   }"

definition poly_from_eval_fin :: "int list \<Rightarrow> int list option" where
  "poly_from_eval_fin eval =
     (if length eval < 4 then None
      else do {
        c0_p_c2 \<leftarrow> add_fin (eval ! 0) (eval ! 2);
        c0_m_c2 \<leftarrow> sub_fin (eval ! 0) (eval ! 2);
        c1_p_c3 \<leftarrow> add_fin (eval ! 1) (eval ! 3);
        c1_m_c3 \<leftarrow> sub_fin (eval ! 1) (eval ! 3);
        x0 \<leftarrow> add_fin c0_p_c2 c1_p_c3;
        t1 \<leftarrow> mul_fin i_fin c1_m_c3;
        x1 \<leftarrow> sub_fin c0_m_c2 t1;
        x2 \<leftarrow> sub_fin c0_p_c2 c1_p_c3;
        t3 \<leftarrow> mul_fin i_fin c1_m_c3;
        x3 \<leftarrow> add_fin c0_m_c2 t3;
        div_each_fin [x0, x1, x2, x3] 4
      })"

text \<open>
  \<^verbatim>\<open>scale\<close> and \<^verbatim>\<open>unscale\<close> (lines 102 to 120) update the entries 1, 2 and 3 of the array in
  place; \<open>fac2\<close> and \<open>fac3\<close> are the successive values of the variable \<^verbatim>\<open>fac\<close>.
\<close>

definition scale_fin :: "int list \<Rightarrow> int \<Rightarrow> int list option" where
  "scale_fin a k =
     (if length a < 4 then None
      else do {
        a1 \<leftarrow> mul_fin (a ! 1) k;
        fac2 \<leftarrow> mul_fin k k;
        a2 \<leftarrow> mul_fin (a ! 2) fac2;
        fac3 \<leftarrow> mul_fin fac2 k;
        a3 \<leftarrow> mul_fin (a ! 3) fac3;
        Some (a[1 := a1, 2 := a2, 3 := a3])
      })"

definition unscale_fin :: "int list \<Rightarrow> int \<Rightarrow> int list option" where
  "unscale_fin a k =
     (if length a < 4 then None
      else do {
        a1 \<leftarrow> div_fin (a ! 1) k;
        fac2 \<leftarrow> mul_fin k k;
        a2 \<leftarrow> div_fin (a ! 2) fac2;
        fac3 \<leftarrow> mul_fin fac2 k;
        a3 \<leftarrow> div_fin (a ! 3) fac3;
        Some (a[1 := a1, 2 := a2, 3 := a3])
      })"

text \<open>
  The two pointwise loops of \<^verbatim>\<open>main\<close>, \<^verbatim>\<open>for (j = 0; j < 4; j++)\<close> over two arrays of four
  entries.
\<close>

fun mul_pointwise_fin :: "int list \<Rightarrow> int list \<Rightarrow> int list option" where
  "mul_pointwise_fin (x # xs) (y # ys) = do {
     p \<leftarrow> mul_fin x y;
     ps \<leftarrow> mul_pointwise_fin xs ys;
     Some (p # ps)
   }"
| "mul_pointwise_fin _ _ = Some []"

fun div_pointwise_fin :: "int list \<Rightarrow> int list \<Rightarrow> int list option" where
  "div_pointwise_fin (x # xs) (y # ys) = do {
     q \<leftarrow> div_fin x y;
     qs \<leftarrow> div_pointwise_fin xs ys;
     Some (q # qs)
   }"
| "div_pointwise_fin _ _ = Some []"

text \<open>
  The body of \<^verbatim>\<open>main\<close> (lines 122 to 197), with its four literals as parameters: the data
  polynomial, the indices whose evaluations are overwritten with 0 (\<^verbatim>\<open>data_eval[1] = 0;
  data_eval[2] = 0;\<close> in the source), the zero polynomial and the scale factor. \<^verbatim>\<open>main\<close> itself
  is the instance \<open>main_fin\<close> below.
\<close>

fun erase_fin :: "int list \<Rightarrow> nat list \<Rightarrow> int list option" where
  "erase_fin data_eval [] = Some data_eval"
| "erase_fin data_eval (j # js) =
     (if j < length data_eval then erase_fin (data_eval[j := 0]) js else None)"

definition recover_fin :: "int list \<Rightarrow> nat list \<Rightarrow> int list \<Rightarrow> int \<Rightarrow> int list option" where
  "recover_fin data_poly lost zero_poly k = do {
     data_eval \<leftarrow> eval_from_poly_fin data_poly;
     data_eval \<leftarrow> erase_fin data_eval lost;
     zero_poly_eval \<leftarrow> eval_from_poly_fin zero_poly;
     ez_eval \<leftarrow> mul_pointwise_fin data_eval zero_poly_eval;
     dz_poly \<leftarrow> poly_from_eval_fin ez_eval;
     dz_poly \<leftarrow> scale_fin dz_poly k;
     zero_poly \<leftarrow> scale_fin zero_poly k;
     dz_scaled_eval \<leftarrow> eval_from_poly_fin dz_poly;
     zero_scaled_eval \<leftarrow> eval_from_poly_fin zero_poly;
     quotient_eval \<leftarrow> div_pointwise_fin dz_scaled_eval zero_scaled_eval;
     recovered_poly \<leftarrow> poly_from_eval_fin quotient_eval;
     unscale_fin recovered_poly k
   }"

definition main_fin :: "int list option" where
  "main_fin = recover_fin [5, 7, 0, 0] [1, 2] [13, 14, 1, 0] 2"


section \<open>main.c: the complex integers\<close>

text \<open>
  The struct \<^verbatim>\<open>complex\<close> of two \<^verbatim>\<open>int\<close> fields, the four constants, and \<^verbatim>\<open>equal\<close>,
  \<^verbatim>\<open>new_complex\<close>, \<^verbatim>\<open>cconj\<close>, \<^verbatim>\<open>add\<close>, \<^verbatim>\<open>sub\<close>, \<^verbatim>\<open>mul\<close>, \<^verbatim>\<open>div\<close> (lines 34 to 108 of the file).
  The component arithmetic is that of \<^verbatim>\<open>int\<close>: the negation in \<^verbatim>\<open>cconj\<close>, the products, sums
  and differences in \<^verbatim>\<open>add\<close>, \<^verbatim>\<open>sub\<close> and \<^verbatim>\<open>mul\<close>, and the two truncating divisions in
  \<^verbatim>\<open>div\<close>, which come before its assertion.
\<close>

record complex =
  re :: int
  im :: int

definition zero :: complex where
  "zero = \<lparr>re = 0, im = 0\<rparr>"

definition i_cpx :: complex where
  "i_cpx = \<lparr>re = 0, im = 1\<rparr>"

definition two :: complex where
  "two = \<lparr>re = 2, im = 0\<rparr>"

definition four :: complex where
  "four = \<lparr>re = 4, im = 0\<rparr>"

definition equal_cpx :: "complex \<Rightarrow> complex \<Rightarrow> bool" where
  "equal_cpx a b \<longleftrightarrow> re a = re b \<and> im a = im b"

definition new_complex :: "int \<Rightarrow> int \<Rightarrow> complex" where
  "new_complex r j = \<lparr>re = r, im = j\<rparr>"

definition cconj :: "complex \<Rightarrow> complex option" where
  "cconj a = do {
     n \<leftarrow> int_neg (im a);
     Some (new_complex (re a) n)
   }"

definition add_cpx :: "complex \<Rightarrow> complex \<Rightarrow> complex option" where
  "add_cpx a b = do {
     r \<leftarrow> int_add (re a) (re b);
     j \<leftarrow> int_add (im a) (im b);
     Some (new_complex r j)
   }"

definition sub_cpx :: "complex \<Rightarrow> complex \<Rightarrow> complex option" where
  "sub_cpx a b = do {
     r \<leftarrow> int_sub (re a) (re b);
     j \<leftarrow> int_sub (im a) (im b);
     Some (new_complex r j)
   }"

definition mul_cpx :: "complex \<Rightarrow> complex \<Rightarrow> complex option" where
  "mul_cpx a b = do {
     rr \<leftarrow> int_mul (re a) (re b);
     ii \<leftarrow> int_mul (im a) (im b);
     r \<leftarrow> int_sub rr ii;
     ri \<leftarrow> int_mul (re a) (im b);
     ir \<leftarrow> int_mul (im a) (re b);
     j \<leftarrow> int_add ri ir;
     Some (new_complex r j)
   }"

definition div_cpx :: "complex \<Rightarrow> complex \<Rightarrow> complex option" where
  "div_cpx a b = do {
     b_conj \<leftarrow> cconj b;
     ab_conj \<leftarrow> mul_cpx a b_conj;
     bb_conj \<leftarrow> mul_cpx b b_conj;
     r \<leftarrow> int_div (re ab_conj) (re bb_conj);
     j \<leftarrow> int_div (im ab_conj) (re bb_conj);
     let ret = new_complex r j;
     m \<leftarrow> mul_cpx ret b;
     _ \<leftarrow> assert_c (equal_cpx a m);
     Some ret
   }"

text \<open>The transforms (lines 112 to 135), \<^verbatim>\<open>scale\<close> and \<^verbatim>\<open>unscale\<close> (lines 139 to 157).\<close>

definition eval_from_poly_cpx :: "complex list \<Rightarrow> complex list option" where
  "eval_from_poly_cpx coeffs =
     (if length coeffs < 4 then None
      else do {
        c0_p_c2 \<leftarrow> add_cpx (coeffs ! 0) (coeffs ! 2);
        c0_m_c2 \<leftarrow> sub_cpx (coeffs ! 0) (coeffs ! 2);
        c1_p_c3 \<leftarrow> add_cpx (coeffs ! 1) (coeffs ! 3);
        c1_m_c3 \<leftarrow> sub_cpx (coeffs ! 1) (coeffs ! 3);
        e0 \<leftarrow> add_cpx c0_p_c2 c1_p_c3;
        t1 \<leftarrow> mul_cpx i_cpx c1_m_c3;
        e1 \<leftarrow> add_cpx c0_m_c2 t1;
        e2 \<leftarrow> sub_cpx c0_p_c2 c1_p_c3;
        t3 \<leftarrow> mul_cpx i_cpx c1_m_c3;
        e3 \<leftarrow> sub_cpx c0_m_c2 t3;
        Some [e0, e1, e2, e3]
      })"

fun div_each_cpx :: "complex list \<Rightarrow> complex \<Rightarrow> complex list option" where
  "div_each_cpx [] d = Some []"
| "div_each_cpx (x # xs) d = do {
     q \<leftarrow> div_cpx x d;
     qs \<leftarrow> div_each_cpx xs d;
     Some (q # qs)
   }"

definition poly_from_eval_cpx :: "complex list \<Rightarrow> complex list option" where
  "poly_from_eval_cpx eval =
     (if length eval < 4 then None
      else do {
        c0_p_c2 \<leftarrow> add_cpx (eval ! 0) (eval ! 2);
        c0_m_c2 \<leftarrow> sub_cpx (eval ! 0) (eval ! 2);
        c1_p_c3 \<leftarrow> add_cpx (eval ! 1) (eval ! 3);
        c1_m_c3 \<leftarrow> sub_cpx (eval ! 1) (eval ! 3);
        x0 \<leftarrow> add_cpx c0_p_c2 c1_p_c3;
        t1 \<leftarrow> mul_cpx i_cpx c1_m_c3;
        x1 \<leftarrow> sub_cpx c0_m_c2 t1;
        x2 \<leftarrow> sub_cpx c0_p_c2 c1_p_c3;
        t3 \<leftarrow> mul_cpx i_cpx c1_m_c3;
        x3 \<leftarrow> add_cpx c0_m_c2 t3;
        div_each_cpx [x0, x1, x2, x3] four
      })"

definition scale_cpx :: "complex list \<Rightarrow> complex \<Rightarrow> complex list option" where
  "scale_cpx a k =
     (if length a < 4 then None
      else do {
        a1 \<leftarrow> mul_cpx (a ! 1) k;
        fac2 \<leftarrow> mul_cpx k k;
        a2 \<leftarrow> mul_cpx (a ! 2) fac2;
        fac3 \<leftarrow> mul_cpx fac2 k;
        a3 \<leftarrow> mul_cpx (a ! 3) fac3;
        Some (a[1 := a1, 2 := a2, 3 := a3])
      })"

definition unscale_cpx :: "complex list \<Rightarrow> complex \<Rightarrow> complex list option" where
  "unscale_cpx a k =
     (if length a < 4 then None
      else do {
        a1 \<leftarrow> div_cpx (a ! 1) k;
        fac2 \<leftarrow> mul_cpx k k;
        a2 \<leftarrow> div_cpx (a ! 2) fac2;
        fac3 \<leftarrow> mul_cpx fac2 k;
        a3 \<leftarrow> div_cpx (a ! 3) fac3;
        Some (a[1 := a1, 2 := a2, 3 := a3])
      })"

fun mul_pointwise_cpx :: "complex list \<Rightarrow> complex list \<Rightarrow> complex list option" where
  "mul_pointwise_cpx (x # xs) (y # ys) = do {
     p \<leftarrow> mul_cpx x y;
     ps \<leftarrow> mul_pointwise_cpx xs ys;
     Some (p # ps)
   }"
| "mul_pointwise_cpx _ _ = Some []"

fun div_pointwise_cpx :: "complex list \<Rightarrow> complex list \<Rightarrow> complex list option" where
  "div_pointwise_cpx (x # xs) (y # ys) = do {
     q \<leftarrow> div_cpx x y;
     qs \<leftarrow> div_pointwise_cpx xs ys;
     Some (q # qs)
   }"
| "div_pointwise_cpx _ _ = Some []"

text \<open>The body of \<^verbatim>\<open>main\<close> (lines 159 to 234), with its four literals as parameters.\<close>

fun erase_cpx :: "complex list \<Rightarrow> nat list \<Rightarrow> complex list option" where
  "erase_cpx data_eval [] = Some data_eval"
| "erase_cpx data_eval (j # js) =
     (if j < length data_eval then erase_cpx (data_eval[j := new_complex 0 0]) js else None)"

definition recover_cpx ::
  "complex list \<Rightarrow> nat list \<Rightarrow> complex list \<Rightarrow> complex \<Rightarrow> complex list option" where
  "recover_cpx data_poly lost zero_poly k = do {
     data_eval \<leftarrow> eval_from_poly_cpx data_poly;
     data_eval \<leftarrow> erase_cpx data_eval lost;
     zero_poly_eval \<leftarrow> eval_from_poly_cpx zero_poly;
     ez_eval \<leftarrow> mul_pointwise_cpx data_eval zero_poly_eval;
     dz_poly \<leftarrow> poly_from_eval_cpx ez_eval;
     dz_poly \<leftarrow> scale_cpx dz_poly k;
     zero_poly \<leftarrow> scale_cpx zero_poly k;
     dz_scaled_eval \<leftarrow> eval_from_poly_cpx dz_poly;
     zero_scaled_eval \<leftarrow> eval_from_poly_cpx zero_poly;
     quotient_eval \<leftarrow> div_pointwise_cpx dz_scaled_eval zero_scaled_eval;
     recovered_poly \<leftarrow> poly_from_eval_cpx quotient_eval;
     unscale_cpx recovered_poly k
   }"

definition main_cpx :: "complex list option" where
  "main_cpx =
     recover_cpx
       [\<lparr>re = 5, im = 0\<rparr>, \<lparr>re = 7, im = 0\<rparr>, \<lparr>re = 0, im = 0\<rparr>, \<lparr>re = 0, im = 0\<rparr>]
       [1, 2]
       [\<lparr>re = 0, im = - 1\<rparr>, \<lparr>re = 1, im = - 1\<rparr>, \<lparr>re = 1, im = 0\<rparr>, \<lparr>re = 0, im = 0\<rparr>]
       two"


section \<open>Reference notions\<close>

text \<open>
  The notions in which the properties below are stated. A canonical residue is a value in
  \<open>[0, MOD)\<close>. \<open>inverse_fin\<close> names the entry of the table of \<^verbatim>\<open>div\<close>.
\<close>

definition canonical :: "int \<Rightarrow> bool" where
  "canonical x \<longleftrightarrow> 0 \<le> x \<and> x < MOD"

definition inverse_fin :: "int \<Rightarrow> int" where
  "inverse_fin b = inv_fin ! nat b"

text \<open>
  The length-4 discrete Fourier transform over the integers modulo 17, as the
  specification words it: entry \<open>j\<close> is the sum over \<open>k\<close> of \<open>p[k] * r ^ (j * k)\<close>, with
  \<open>r = 4\<close>.
\<close>

definition dft_fin :: "int list \<Rightarrow> nat \<Rightarrow> int" where
  "dft_fin p j = (\<Sum>k\<leftarrow>[0..<4]. p ! k * i_fin ^ (j * k)) mod MOD"

text \<open>
  The ring of complex integers, on unbounded integers: what \<^verbatim>\<open>add\<close>, \<^verbatim>\<open>sub\<close>, \<^verbatim>\<open>mul\<close> and
  \<^verbatim>\<open>cconj\<close> of \<^verbatim>\<open>main.c\<close> compute when no operation leaves the range of \<^verbatim>\<open>int\<close>.
\<close>

definition plus_cpx :: "complex \<Rightarrow> complex \<Rightarrow> complex" where
  "plus_cpx a b = \<lparr>re = re a + re b, im = im a + im b\<rparr>"

definition minus_cpx :: "complex \<Rightarrow> complex \<Rightarrow> complex" where
  "minus_cpx a b = \<lparr>re = re a - re b, im = im a - im b\<rparr>"

definition times_cpx :: "complex \<Rightarrow> complex \<Rightarrow> complex" where
  "times_cpx a b = \<lparr>re = re a * re b - im a * im b, im = re a * im b + im a * re b\<rparr>"

definition conj_cpx :: "complex \<Rightarrow> complex" where
  "conj_cpx a = \<lparr>re = re a, im = - im a\<rparr>"

definition norm2 :: "complex \<Rightarrow> int" where
  "norm2 b = re b * re b + im b * im b"

fun power_cpx :: "complex \<Rightarrow> nat \<Rightarrow> complex" where
  "power_cpx a 0 = \<lparr>re = 1, im = 0\<rparr>"
| "power_cpx a (Suc n) = times_cpx a (power_cpx a n)"

fun sum_cpx :: "complex list \<Rightarrow> complex" where
  "sum_cpx [] = zero"
| "sum_cpx (x # xs) = plus_cpx x (sum_cpx xs)"

text \<open>The length-4 discrete Fourier transform over the complex integers, with \<open>r = i\<close>.\<close>

definition dft_cpx :: "complex list \<Rightarrow> nat \<Rightarrow> complex" where
  "dft_cpx p j = sum_cpx (map (\<lambda>k. times_cpx (p ! k) (power_cpx i_cpx (j * k))) [0..<4])"

text \<open>Both components of a complex integer lie within \<open>M\<close> of zero.\<close>

definition small :: "int \<Rightarrow> complex \<Rightarrow> bool" where
  "small M a \<longleftrightarrow> \<bar>re a\<bar> \<le> M \<and> \<bar>im a\<bar> \<le> M"


section \<open>Facts about the arithmetic modulo 17\<close>

lemma checked_Some: "- 2147483648 \<le> x \<Longrightarrow> x \<le> 2147483647 \<Longrightarrow> checked x = Some x"
  by (simp add: checked_def in_range_def INT_MIN_def INT_MAX_def)

lemma trunc_rem_nonneg: "0 \<le> a \<Longrightarrow> trunc_rem a b = a mod \<bar>b\<bar>"
  by (cases "a = 0") (simp_all add: trunc_rem_def)

lemma int_mod_MOD: "0 \<le> s \<Longrightarrow> int_mod s MOD = Some (s mod 17)"
  by (simp add: int_mod_def MOD_def trunc_rem_nonneg INT_MIN_def)

lemma canonical_mod [simp]: "canonical (x mod 17)"
  by (simp add: canonical_def MOD_def)

lemma add_fin_canonical:
  "canonical a \<Longrightarrow> canonical b \<Longrightarrow> add_fin a b = Some ((a + b) mod 17)"
  by (simp add: add_fin_def int_add_def canonical_def MOD_def checked_Some int_mod_MOD [unfolded MOD_def])

lemma neg_fin_canonical: "canonical a \<Longrightarrow> neg_fin a = Some (17 - a)"
  by (simp add: neg_fin_def int_sub_def canonical_def MOD_def checked_Some)

lemma sub_fin_canonical:
  assumes "canonical a" "canonical b"
  shows "sub_fin a b = Some ((a - b) mod 17)"
proof -
  have "a + (17 - b) = (a - b) + 17"
    by simp
  then have e: "(a + (17 - b)) mod 17 = (a - b) mod 17"
    by (simp only: mod_add_self2)
  have s: "int_add a (17 - b) = Some (a + (17 - b))" "0 \<le> a + (17 - b)"
    using assms by (simp_all add: int_add_def canonical_def MOD_def checked_Some)
  show ?thesis
    unfolding sub_fin_def neg_fin_canonical [OF assms(2)]
    by (simp only: bind.bind_lunit s int_mod_MOD e)
qed

lemma canonical_mult_bound: "canonical a \<Longrightarrow> canonical b \<Longrightarrow> 0 \<le> a * b \<and> a * b \<le> 256"
  using mult_mono [of a 16 b 16] by (simp add: canonical_def MOD_def)

lemma mul_fin_canonical:
  "canonical a \<Longrightarrow> canonical b \<Longrightarrow> mul_fin a b = Some ((a * b) mod 17)"
  using canonical_mult_bound [of a b]
  by (simp add: mul_fin_def int_mul_def checked_Some int_mod_MOD)

lemma inv_table: "\<forall>b \<in> set [1..16]. (b * (inv_fin ! nat b)) mod 17 = 1 \<and> canonical (inv_fin ! nat b)"
  by code_simp

lemma equal_fin_canonical:
  assumes "canonical a" "canonical b"
  shows "equal_fin a b = Some (a = b)"
proof -
  have m: "0 \<le> a" "0 \<le> b" "a mod 17 = a" "b mod 17 = b"
    using assms by (simp_all add: canonical_def MOD_def)
  show ?thesis
    by (simp add: equal_fin_def int_mod_MOD m)
qed

lemma canonical_0: "canonical 0"
  by (simp add: canonical_def MOD_def)

lemma div_fin_canonical:
  assumes "canonical a" "canonical b"
  shows "div_fin a b = (if b = 0 \<and> a \<noteq> 0 then None else Some ((a * inverse_fin b) mod 17))"
proof (cases "b = 0")
  case True
  with assms show ?thesis
    by (simp add: div_fin_def int_mod_MOD array_read_def inv_fin_def inverse_fin_def int_mul_def
        checked_Some mul_fin_canonical equal_fin_canonical assert_c_def canonical_0)
next
  case False
  with assms have b: "b \<in> set [1..16]" by (simp add: canonical_def MOD_def)
  with inv_table have i: "(b * inverse_fin b) mod 17 = 1" "canonical (inverse_fin b)"
    by (auto simp: inverse_fin_def)
  have "(a * inverse_fin b mod 17 * b) mod 17 = (a * (b * inverse_fin b mod 17)) mod 17"
    by (simp add: mod_simps ac_simps)
  also have "\<dots> = a" using assms i by (simp add: canonical_def MOD_def)
  finally have r: "(a * inverse_fin b mod 17 * b) mod 17 = a" .
  have bm: "b mod 17 = b" "0 \<le> b" "b < 17" using assms by (simp_all add: canonical_def MOD_def)
  have rd: "array_read inv_fin b = Some (inverse_fin b)"
    using bm by (simp add: array_read_def inverse_fin_def inv_fin_def)
  have pr: "int_mul a (inverse_fin b) = Some (a * inverse_fin b)"
    using canonical_mult_bound [OF assms(1) i(2)] by (simp add: int_mul_def checked_Some)
  have nn: "0 \<le> a * inverse_fin b"
    using canonical_mult_bound [OF assms(1) i(2)] by simp
  show ?thesis
    using False
    by (simp add: div_fin_def int_mod_MOD bm rd pr nn mul_fin_canonical assms
        equal_fin_canonical r assert_c_def)
qed

lemma length_4: "length p = 4 \<Longrightarrow> \<exists>a b c d. p = [a, b, c, d]"
  by (auto simp: length_Suc_conv numeral_eq_Suc)

lemma canonical_i: "canonical i_fin"
  by (simp add: canonical_def i_fin_def MOD_def)

lemma canonical_4: "canonical 4"
  by (simp add: canonical_def MOD_def)

lemma inverse_fin_4: "inverse_fin 4 = 13"
  by (simp add: inverse_fin_def inv_fin_def)

lemma div_fin_4: "canonical x \<Longrightarrow> div_fin x 4 = Some ((x * 13) mod 17)"
  by (simp add: div_fin_canonical canonical_4 inverse_fin_4)

lemma eval_from_poly_fin_canonical:
  assumes "canonical a" "canonical b" "canonical c" "canonical d"
  shows "eval_from_poly_fin [a, b, c, d] =
    Some [((a + c) mod 17 + (b + d) mod 17) mod 17,
          ((a - c) mod 17 + (4 * ((b - d) mod 17)) mod 17) mod 17,
          ((a + c) mod 17 - (b + d) mod 17) mod 17,
          ((a - c) mod 17 - (4 * ((b - d) mod 17)) mod 17) mod 17]"
  using assms canonical_i
  by (simp add: eval_from_poly_fin_def add_fin_canonical sub_fin_canonical mul_fin_canonical i_fin_def)

lemma poly_from_eval_fin_canonical:
  assumes "canonical a" "canonical b" "canonical c" "canonical d"
  shows "poly_from_eval_fin [a, b, c, d] =
    Some [(((a + c) mod 17 + (b + d) mod 17) mod 17 * 13) mod 17,
          (((a - c) mod 17 - (4 * ((b - d) mod 17)) mod 17) mod 17 * 13) mod 17,
          (((a + c) mod 17 - (b + d) mod 17) mod 17 * 13) mod 17,
          (((a - c) mod 17 + (4 * ((b - d) mod 17)) mod 17) mod 17 * 13) mod 17]"
  using assms canonical_i
  by (simp add: poly_from_eval_fin_def add_fin_canonical sub_fin_canonical mul_fin_canonical i_fin_def div_fin_4)


lemma upt_4: "[0..<4] = [0, 1, 2, 3]"
  by (simp add: upt_rec)

lemma mod17_cong: "x = y + 17 * k \<Longrightarrow> x mod 17 = y mod (17 :: int)"
  by simp

lemma dft_fin_list:
  "map (dft_fin [a, b, c, d]) [0..<4] =
     [(a + b + c + d) mod 17,
      (a + b * 4 + c * 16 + d * 64) mod 17,
      (a + b * 16 + c * 256 + d * 4096) mod 17,
      (a + b * 64 + c * 4096 + d * 262144) mod 17]"
  by (simp add: upt_4 dft_fin_def i_fin_def MOD_def add.assoc)

lemma butterfly_fin_dft:
  "((a + c) mod 17 + (b + d) mod 17) mod 17 = (a + b + c + d) mod (17 :: int)"
  "((a - c) mod 17 + (4 * ((b - d) mod 17)) mod 17) mod 17 = (a + b * 4 + c * 16 + d * 64) mod (17 :: int)"
  "((a + c) mod 17 - (b + d) mod 17) mod 17 = (a + b * 16 + c * 256 + d * 4096) mod (17 :: int)"
  "((a - c) mod 17 - (4 * ((b - d) mod 17)) mod 17) mod 17 = (a + b * 64 + c * 4096 + d * 262144) mod (17 :: int)"
proof -
  have "((a + c) mod 17 + (b + d) mod 17) mod 17 = (a + c + (b + d)) mod 17"
    by (simp add: mod_simps)
  also have "\<dots> = (a + b + c + d) mod 17"
    by (rule mod17_cong [where k = 0]) simp
  finally show "((a + c) mod 17 + (b + d) mod 17) mod 17 = (a + b + c + d) mod 17" .
  have "((a - c) mod 17 + (4 * ((b - d) mod 17)) mod 17) mod 17 = (a - c + 4 * (b - d)) mod 17"
    by (simp add: mod_simps)
  also have "\<dots> = (a + b * 4 + c * 16 + d * 64) mod 17"
    by (rule mod17_cong [where k = "- (c + 4 * d)"]) simp
  finally show "((a - c) mod 17 + (4 * ((b - d) mod 17)) mod 17) mod 17 = (a + b * 4 + c * 16 + d * 64) mod 17" .
  have "((a + c) mod 17 - (b + d) mod 17) mod 17 = (a + c - (b + d)) mod 17"
    by (simp add: mod_simps)
  also have "\<dots> = (a + b * 16 + c * 256 + d * 4096) mod 17"
    by (rule mod17_cong [where k = "- (b + 15 * c + 241 * d)"]) simp
  finally show "((a + c) mod 17 - (b + d) mod 17) mod 17 = (a + b * 16 + c * 256 + d * 4096) mod 17" .
  have "((a - c) mod 17 - (4 * ((b - d) mod 17)) mod 17) mod 17 = (a - c - 4 * (b - d)) mod 17"
    by (simp add: mod_simps)
  also have "\<dots> = (a + b * 64 + c * 4096 + d * 262144) mod 17"
    by (rule mod17_cong [where k = "- (4 * b + 241 * c + 15420 * d)"]) simp
  finally show "((a - c) mod 17 - (4 * ((b - d) mod 17)) mod 17) mod 17 = (a + b * 64 + c * 4096 + d * 262144) mod 17" .
qed

lemma eval_from_poly_fin_dft:
  assumes "canonical a" "canonical b" "canonical c" "canonical d"
  shows "eval_from_poly_fin [a, b, c, d] = Some (map (dft_fin [a, b, c, d]) [0..<4])"
  unfolding dft_fin_list eval_from_poly_fin_canonical [OF assms] butterfly_fin_dft ..

lemma canonical_mod_id: "canonical a \<Longrightarrow> a mod 17 = a"
  by (simp add: canonical_def MOD_def)

lemma roundtrip_fin_arith:
  fixes a b c d :: int
  defines "e0 \<equiv> ((a + c) mod 17 + (b + d) mod 17) mod 17"
    and "e1 \<equiv> ((a - c) mod 17 + (4 * ((b - d) mod 17)) mod 17) mod 17"
    and "e2 \<equiv> ((a + c) mod 17 - (b + d) mod 17) mod 17"
    and "e3 \<equiv> ((a - c) mod 17 - (4 * ((b - d) mod 17)) mod 17) mod 17"
  shows "(((e0 + e2) mod 17 + (e1 + e3) mod 17) mod 17 * 13) mod 17 = a mod 17"
    and "(((e0 - e2) mod 17 - (4 * ((e1 - e3) mod 17)) mod 17) mod 17 * 13) mod 17 = b mod 17"
    and "(((e0 + e2) mod 17 - (e1 + e3) mod 17) mod 17 * 13) mod 17 = c mod 17"
    and "(((e0 - e2) mod 17 + (4 * ((e1 - e3) mod 17)) mod 17) mod 17 * 13) mod 17 = d mod 17"
proof -
  have "(((e0 + e2) mod 17 + (e1 + e3) mod 17) mod 17 * 13) mod 17
      = (((a + c + (b + d)) + (a + c - (b + d)) + ((a - c + 4 * (b - d)) + (a - c - 4 * (b - d)))) * 13) mod 17"
    unfolding e0_def e1_def e2_def e3_def by (simp add: mod_simps)
  also have "\<dots> = a mod 17"
    by (rule mod17_cong [where k = "3 * a"]) simp
  finally show "(((e0 + e2) mod 17 + (e1 + e3) mod 17) mod 17 * 13) mod 17 = a mod 17" .
  have "(((e0 - e2) mod 17 - (4 * ((e1 - e3) mod 17)) mod 17) mod 17 * 13) mod 17
      = (((a + c + (b + d)) - (a + c - (b + d)) - 4 * ((a - c + 4 * (b - d)) - (a - c - 4 * (b - d)))) * 13) mod 17"
    unfolding e0_def e1_def e2_def e3_def by (simp add: mod_simps)
  also have "\<dots> = b mod 17"
    by (rule mod17_cong [where k = "26 * d - 23 * b"]) simp
  finally show "(((e0 - e2) mod 17 - (4 * ((e1 - e3) mod 17)) mod 17) mod 17 * 13) mod 17 = b mod 17" .
  have "(((e0 + e2) mod 17 - (e1 + e3) mod 17) mod 17 * 13) mod 17
      = (((a + c + (b + d)) + (a + c - (b + d)) - ((a - c + 4 * (b - d)) + (a - c - 4 * (b - d)))) * 13) mod 17"
    unfolding e0_def e1_def e2_def e3_def by (simp add: mod_simps)
  also have "\<dots> = c mod 17"
    by (rule mod17_cong [where k = "3 * c"]) simp
  finally show "(((e0 + e2) mod 17 - (e1 + e3) mod 17) mod 17 * 13) mod 17 = c mod 17" .
  have "(((e0 - e2) mod 17 + (4 * ((e1 - e3) mod 17)) mod 17) mod 17 * 13) mod 17
      = (((a + c + (b + d)) - (a + c - (b + d)) + 4 * ((a - c + 4 * (b - d)) - (a - c - 4 * (b - d)))) * 13) mod 17"
    unfolding e0_def e1_def e2_def e3_def by (simp add: mod_simps)
  also have "\<dots> = d mod 17"
    by (rule mod17_cong [where k = "26 * b - 23 * d"]) simp
  finally show "(((e0 - e2) mod 17 + (4 * ((e1 - e3) mod 17)) mod 17) mod 17 * 13) mod 17 = d mod 17" .
qed

lemma roundtrip_fin:
  assumes "canonical a" "canonical b" "canonical c" "canonical d"
  shows "eval_from_poly_fin [a, b, c, d] \<bind> poly_from_eval_fin = Some [a, b, c, d]"
  unfolding eval_from_poly_fin_canonical [OF assms]
  by (simp only: bind.bind_lunit poly_from_eval_fin_canonical canonical_mod roundtrip_fin_arith
      canonical_mod_id [OF assms(1)] canonical_mod_id [OF assms(2)]
      canonical_mod_id [OF assms(3)] canonical_mod_id [OF assms(4)])

lemma div_fin_Some:
  assumes "canonical a" "canonical b" "div_fin a b = Some q"
  shows "canonical q \<and> mul_fin q b = Some a"
proof -
  from assms have q: "q = (a * inverse_fin b) mod 17" and nz: "b \<noteq> 0 \<or> a = 0"
    by (auto simp: div_fin_canonical split: if_splits)
  have cq: "canonical q" by (simp add: q)
  show ?thesis
  proof (cases "b = 0")
    case True
    with nz assms(1) cq show ?thesis by (simp add: mul_fin_canonical canonical_0)
  next
    case False
    with assms have "b \<in> set [1..16]" by (simp add: canonical_def MOD_def)
    with inv_table have i: "(b * inverse_fin b) mod 17 = 1"
      by (auto simp: inverse_fin_def)
    have "(q * b) mod 17 = (a * (b * inverse_fin b mod 17)) mod 17"
      unfolding q by (simp add: mod_simps ac_simps)
    also have "\<dots> = a" using assms(1) by (simp add: i canonical_mod_id)
    finally show ?thesis using cq assms(2) by (simp add: mul_fin_canonical)
  qed
qed

lemma div_fin_None:
  assumes "canonical a" "canonical b"
  shows "div_fin a b = None \<longleftrightarrow> b = 0 \<and> a \<noteq> 0"
  using assms by (simp add: div_fin_canonical)

lemma no_quotient_fin:
  assumes "canonical a" "canonical b"
  shows "(\<nexists>q. canonical q \<and> mul_fin q b = Some a) \<longleftrightarrow> b = 0 \<and> a \<noteq> 0"
proof
  assume n: "\<nexists>q. canonical q \<and> mul_fin q b = Some a"
  show "b = 0 \<and> a \<noteq> 0"
  proof (rule ccontr)
    assume "\<not> (b = 0 \<and> a \<noteq> 0)"
    with assms obtain q where "div_fin a b = Some q"
      by (auto simp: div_fin_canonical)
    from div_fin_Some [OF assms this] n show False by blast
  qed
next
  assume "b = 0 \<and> a \<noteq> 0"
  then show "\<nexists>q. canonical q \<and> mul_fin q b = Some a"
    by (auto simp: mul_fin_canonical canonical_0)
qed



lemma div_fin_mult:
  assumes "canonical a" "canonical f" "f \<noteq> 0"
  shows "div_fin ((a * f) mod 17) f = Some a"
proof -
  from assms have "f \<in> set [1..16]" by (simp add: canonical_def MOD_def)
  with inv_table have i: "(f * inverse_fin f) mod 17 = 1"
    by (auto simp: inverse_fin_def)
  have "((a * f) mod 17 * inverse_fin f) mod 17 = (a * (f * inverse_fin f mod 17)) mod 17"
    by (simp add: mod_simps ac_simps)
  also have "\<dots> = a" using assms(1) by (simp add: i canonical_mod_id)
  finally show ?thesis using assms by (simp add: div_fin_canonical)
qed

lemma powers_nonzero_fin:
  "\<forall>k \<in> set [1..16]. (k * k) mod 17 \<noteq> 0 \<and> ((k * k) mod 17 * k) mod 17 \<noteq> 0"
  by code_simp

lemma canonical_nth: "list_all canonical p \<Longrightarrow> j < length p \<Longrightarrow> canonical (p ! j)"
  by (simp add: list_all_length)

lemma scale_fin_canonical:
  assumes "4 \<le> length p" "list_all canonical p" "canonical k"
  shows "scale_fin p k =
    Some (p[1 := (p ! 1 * k) mod 17,
            2 := (p ! 2 * ((k * k) mod 17)) mod 17,
            3 := (p ! 3 * (((k * k) mod 17 * k) mod 17)) mod 17])"
proof -
  have "canonical (p ! 1)" "canonical (p ! 2)" "canonical (p ! 3)"
    using assms(1,2) by (simp_all add: canonical_nth)
  then show ?thesis
    using assms(1,3) by (simp add: scale_fin_def mul_fin_canonical)
qed

lemma scale_fin_powers:
  assumes "4 \<le> length p" "list_all canonical p" "canonical k"
  shows "scale_fin p k =
    Some (p[1 := (p ! 1 * k) mod MOD, 2 := (p ! 2 * k ^ 2) mod MOD, 3 := (p ! 3 * k ^ 3) mod MOD])"
proof -
  have "(p ! 2 * ((k * k) mod 17)) mod 17 = (p ! 2 * k ^ 2) mod 17"
    by (simp add: mod_simps power2_eq_square)
  moreover have "(p ! 3 * (((k * k) mod 17 * k) mod 17)) mod 17 = (p ! 3 * k ^ 3) mod 17"
    by (simp add: mod_simps power3_eq_cube)
  ultimately show ?thesis
    by (simp only: scale_fin_canonical [OF assms] MOD_def)
qed

lemma unscale_fin_Some:
  assumes "4 \<le> length p" "list_all canonical p" "canonical k" "unscale_fin p k = Some q"
  shows "\<exists>q1 q2 q3. q = p[1 := q1, 2 := q2, 3 := q3]
     \<and> canonical q1 \<and> canonical q2 \<and> canonical q3
     \<and> (q1 * k) mod MOD = p ! 1 \<and> (q2 * k ^ 2) mod MOD = p ! 2 \<and> (q3 * k ^ 3) mod MOD = p ! 3"
proof -
  have c: "canonical (p ! 1)" "canonical (p ! 2)" "canonical (p ! 3)"
    using assms(1,2) by (simp_all add: canonical_nth)
  define f2 where "f2 = (k * k) mod 17"
  define f3 where "f3 = (f2 * k) mod 17"
  have f: "canonical f2" "canonical f3" by (simp_all add: f2_def f3_def)
  from assms(1,3,4) obtain q1 q2 q3 where q: "q = p[1 := q1, 2 := q2, 3 := q3]"
    and d: "div_fin (p ! 1) k = Some q1" "div_fin (p ! 2) f2 = Some q2" "div_fin (p ! 3) f3 = Some q3"
    by (auto simp: unscale_fin_def mul_fin_canonical f2_def f3_def bind_eq_Some_conv)
  from div_fin_Some [OF c(1) assms(3) d(1)] have 1: "canonical q1" "(q1 * k) mod 17 = p ! 1"
    using assms(3) by (auto simp: mul_fin_canonical)
  from div_fin_Some [OF c(2) f(1) d(2)] have 2: "canonical q2" "(q2 * f2) mod 17 = p ! 2"
    using f by (auto simp: mul_fin_canonical)
  from div_fin_Some [OF c(3) f(2) d(3)] have 3: "canonical q3" "(q3 * f3) mod 17 = p ! 3"
    using f by (auto simp: mul_fin_canonical)
  have "(q2 * f2) mod 17 = (q2 * k ^ 2) mod 17"
    by (simp add: f2_def mod_simps power2_eq_square)
  with 2 have e2: "(q2 * k ^ 2) mod 17 = p ! 2" by simp
  have "(q3 * f3) mod 17 = (q3 * k ^ 3) mod 17"
    by (simp add: f3_def f2_def mod_simps power3_eq_cube)
  with 3 have e3: "(q3 * k ^ 3) mod 17 = p ! 3" by simp
  from q 1 2(1) e2 3(1) e3 show ?thesis by (auto simp: MOD_def)
qed

lemma list_update_restore:
  "xs[Suc 0 := a, 2 := b, 3 := c, Suc 0 := xs ! Suc 0, 2 := xs ! 2, 3 := xs ! 3] = xs"
  by (simp add: list_update_swap [of 3 "Suc 0"] list_update_swap [of 2 "Suc 0"]
      list_update_swap [of 3 2])

lemma unscale_scale_fin:
  assumes "4 \<le> length p" "list_all canonical p" "canonical k" "k \<noteq> 0"
  shows "scale_fin p k \<bind> (\<lambda>s. unscale_fin s k) = Some p"
proof -
  have c: "canonical (p ! 1)" "canonical (p ! 2)" "canonical (p ! 3)"
    using assms(1,2) by (simp_all add: canonical_nth)
  define f2 where "f2 = (k * k) mod 17"
  define f3 where "f3 = (f2 * k) mod 17"
  have f: "canonical f2" "canonical f3" by (simp_all add: f2_def f3_def)
  from assms(3,4) have "k \<in> set [1..16]" by (simp add: canonical_def MOD_def)
  with powers_nonzero_fin have nz: "f2 \<noteq> 0" "f3 \<noteq> 0"
    by (auto simp: f2_def f3_def)
  have d: "div_fin ((p ! 1 * k) mod 17) k = Some (p ! 1)"
      "div_fin ((p ! 2 * f2) mod 17) f2 = Some (p ! 2)"
      "div_fin ((p ! 3 * f3) mod 17) f3 = Some (p ! 3)"
    using c f nz assms(3,4) by (simp_all add: div_fin_mult)
  show ?thesis
    unfolding scale_fin_canonical [OF assms(1-3)]
    using assms(1,3) d
    by (simp add: unscale_fin_def mul_fin_canonical f2_def f3_def list_update_restore)
qed


section \<open>Facts about the arithmetic on complex integers\<close>

lemma add_cpx_eq:
  "add_cpx a b =
     (if in_range (re a + re b) \<and> in_range (im a + im b) then Some (plus_cpx a b) else None)"
  by (simp add: add_cpx_def int_add_def checked_def new_complex_def plus_cpx_def)

lemma sub_cpx_eq:
  "sub_cpx a b =
     (if in_range (re a - re b) \<and> in_range (im a - im b) then Some (minus_cpx a b) else None)"
  by (simp add: sub_cpx_def int_sub_def checked_def new_complex_def minus_cpx_def)

lemma mul_cpx_eq:
  "mul_cpx a b =
     (if in_range (re a * re b) \<and> in_range (im a * im b)
         \<and> in_range (re a * re b - im a * im b)
         \<and> in_range (re a * im b) \<and> in_range (im a * re b)
         \<and> in_range (re a * im b + im a * re b)
      then Some (times_cpx a b) else None)"
  by (simp add: mul_cpx_def int_mul_def int_sub_def int_add_def checked_def new_complex_def times_cpx_def)

lemma mul_cpx_Some: "mul_cpx a b = Some m \<Longrightarrow> m = times_cpx a b"
  by (simp add: mul_cpx_eq split: if_splits)

lemma complex_eqI: "re x = re y \<Longrightarrow> im x = im y \<Longrightarrow> x = (y :: complex)"
  by simp

lemma times_cpx_cancel:
  assumes "times_cpx x b = times_cpx y b" "b \<noteq> zero"
  shows "x = y"
proof -
  define u where "u = re x - re y"
  define v where "v = im x - im y"
  define c where "c = re b"
  define d where "d = im b"
  from assms(1) have "re (times_cpx x b) = re (times_cpx y b)" "im (times_cpx x b) = im (times_cpx y b)"
    by simp_all
  then have e: "u * c - v * d = 0" "u * d + v * c = 0"
    by (simp_all add: times_cpx_def u_def v_def c_def d_def algebra_simps)
  have "u * (c * c + d * d) = c * (u * c - v * d) + d * (u * d + v * c)"
    by (simp add: algebra_simps)
  then have 1: "u * (c * c + d * d) = 0" by (simp only: e mult_zero_right add_0_left diff_self)
  have "v * (c * c + d * d) = c * (u * d + v * c) - d * (u * c - v * d)"
    by (simp add: algebra_simps)
  then have 2: "v * (c * c + d * d) = 0" by (simp only: e mult_zero_right add_0_left diff_self)
  from assms(2) have "c \<noteq> 0 \<or> d \<noteq> 0"
    by (auto simp: zero_def c_def d_def intro: complex_eqI)
  then have "c * c + d * d \<noteq> 0"
    by (simp add: sum_squares_eq_zero_iff)
  with 1 2 have "u = 0" "v = 0" by simp_all
  then show ?thesis by (simp add: u_def v_def)
qed

lemma trunc_quot_mult:
  assumes "n \<noteq> 0"
  shows "trunc_quot (x * n) n = x"
proof -
  have "trunc_quot (x * n) n = sgn x * (sgn n * sgn n) * (\<bar>x\<bar> * \<bar>n\<bar> div \<bar>n\<bar>)"
    by (simp add: trunc_quot_def abs_mult sgn_mult)
  also have "\<dots> = sgn x * \<bar>x\<bar>"
    using assms by (simp add: sgn_mult_self_eq)
  also have "\<dots> = x"
    by (simp add: sgn_mult_abs)
  finally show ?thesis .
qed

lemma cconj_eq: "cconj b = (if in_range (- im b) then Some (conj_cpx b) else None)"
  by (simp add: cconj_def int_neg_def checked_def new_complex_def conj_cpx_def)

lemma norm2_eq_0: "norm2 b = 0 \<longleftrightarrow> b = zero"
  by (auto simp: norm2_def zero_def sum_squares_eq_zero_iff intro: complex_eqI)

lemma times_conj: "times_cpx b (conj_cpx b) = \<lparr>re = norm2 b, im = 0\<rparr>"
  by (simp add: times_cpx_def conj_cpx_def norm2_def)

lemma int_div_eq:
  "int_div a b = (if b \<noteq> 0 \<and> in_range (trunc_quot a b) then Some (trunc_quot a b) else None)"
  by (simp add: int_div_def checked_def)

lemma div_cpx_Some:
  assumes "div_cpx a b = Some q"
  shows "times_cpx q b = a \<and> b \<noteq> zero \<and> mul_cpx q b = Some a"
proof -
  from assms obtain bc ab bb r j m where
    1: "cconj b = Some bc" and 2: "mul_cpx a bc = Some ab" and 3: "mul_cpx b bc = Some bb"
    and 4: "int_div (re ab) (re bb) = Some r" and 5: "int_div (im ab) (re bb) = Some j"
    and 6: "mul_cpx (new_complex r j) b = Some m" and 7: "equal_cpx a m" and 8: "q = new_complex r j"
    by (auto simp: div_cpx_def Let_def assert_c_def bind_eq_Some_conv split: if_splits)
  from 1 have bc: "bc = conj_cpx b" by (simp add: cconj_eq split: if_splits)
  from 3 have "bb = times_cpx b bc" by (rule mul_cpx_Some)
  with bc have "re bb = norm2 b" by (simp add: times_conj)
  moreover from 4 have "re bb \<noteq> 0" by (simp add: int_div_eq split: if_splits)
  ultimately have nz: "b \<noteq> zero" by (auto simp: norm2_eq_0)
  from 7 have "m = a" by (simp add: equal_cpx_def)
  with 6 8 have "mul_cpx q b = Some a" by simp
  with nz show ?thesis by (auto dest: mul_cpx_Some)
qed

lemma div_cpx_zero: "div_cpx a zero = None"
  by (simp add: div_cpx_def cconj_eq mul_cpx_eq in_range_def INT_MIN_def INT_MAX_def
      zero_def conj_cpx_def times_cpx_def int_div_eq)

lemma i_cpx_sel: "re i_cpx = 0" "im i_cpx = 1"
  by (simp_all add: i_cpx_def)

lemma power_i_cpx:
  "power_cpx i_cpx 0 = \<lparr>re = 1, im = 0\<rparr>"
  "power_cpx i_cpx (Suc 0) = \<lparr>re = 0, im = 1\<rparr>"
  "power_cpx i_cpx 2 = \<lparr>re = - 1, im = 0\<rparr>"
  "power_cpx i_cpx 3 = \<lparr>re = 0, im = - 1\<rparr>"
  "power_cpx i_cpx 4 = \<lparr>re = 1, im = 0\<rparr>"
  "power_cpx i_cpx 6 = \<lparr>re = - 1, im = 0\<rparr>"
  "power_cpx i_cpx 9 = \<lparr>re = 0, im = 1\<rparr>"
  by (simp_all add: numeral_eq_Suc i_cpx_def times_cpx_def)

lemma dft_cpx_list:
  "map (dft_cpx [a, b, c, d]) [0..<4] =
    [\<lparr>re = re a + re c + (re b + re d), im = im a + im c + (im b + im d)\<rparr>,
     \<lparr>re = re a - re c - (im b - im d), im = im a - im c + (re b - re d)\<rparr>,
     \<lparr>re = re a + re c - (re b + re d), im = im a + im c - (im b + im d)\<rparr>,
     \<lparr>re = re a - re c + (im b - im d), im = im a - im c - (re b - re d)\<rparr>]"
  by (simp add: upt_4 dft_cpx_def power_i_cpx i_cpx_sel times_cpx_def plus_cpx_def zero_def)

lemma eval_from_poly_cpx_Some:
  assumes "eval_from_poly_cpx [a, b, c, d] = Some e"
  shows "e = map (dft_cpx [a, b, c, d]) [0..<4]"
  using assms unfolding dft_cpx_list
  by (auto simp: eval_from_poly_cpx_def add_cpx_eq sub_cpx_eq mul_cpx_eq i_cpx_def
      plus_cpx_def minus_cpx_def times_cpx_def split: if_splits)

lemma in_range_0: "in_range 0"
  by (simp add: in_range_def INT_MIN_def INT_MAX_def)

lemma eval_from_poly_cpx_small:
  assumes "small 536870911 a" "small 536870911 b" "small 536870911 c" "small 536870911 d"
  shows "eval_from_poly_cpx [a, b, c, d] = Some (map (dft_cpx [a, b, c, d]) [0..<4])"
  using assms unfolding dft_cpx_list
  by (simp add: eval_from_poly_cpx_def add_cpx_eq sub_cpx_eq mul_cpx_eq i_cpx_def
      plus_cpx_def minus_cpx_def times_cpx_def small_def abs_le_iff
      in_range_def INT_MIN_def INT_MAX_def)



lemma four_sel: "re four = 4" "im four = 0"
  by (simp_all add: four_def)

lemma times_four: "times_cpx q four = \<lparr>re = 4 * re q, im = 4 * im q\<rparr>"
  by (simp add: times_cpx_def four_sel)

lemma times_four_inj: "times_cpx q four = \<lparr>re = 4 * r, im = 4 * j\<rparr> \<Longrightarrow> q = \<lparr>re = r, im = j\<rparr>"
  by (simp add: times_four complex_eqI)

lemma div_each_cpx_4:
  assumes "div_each_cpx [x0, x1, x2, x3] d = Some q"
  shows "\<exists>q0 q1 q2 q3. q = [q0, q1, q2, q3] \<and> times_cpx q0 d = x0 \<and> times_cpx q1 d = x1
            \<and> times_cpx q2 d = x2 \<and> times_cpx q3 d = x3"
  using assms by (auto simp: bind_eq_Some_conv dest!: div_cpx_Some)

lemma poly_from_eval_cpx_Some:
  assumes "poly_from_eval_cpx [a, b, c, d] = Some q"
  shows "\<exists>q0 q1 q2 q3. q = [q0, q1, q2, q3]
     \<and> times_cpx q0 four = \<lparr>re = re a + re c + (re b + re d), im = im a + im c + (im b + im d)\<rparr>
     \<and> times_cpx q1 four = \<lparr>re = re a - re c - (im d - im b), im = im a - im c - (re b - re d)\<rparr>
     \<and> times_cpx q2 four = \<lparr>re = re a + re c - (re b + re d), im = im a + im c - (im b + im d)\<rparr>
     \<and> times_cpx q3 four = \<lparr>re = re a - re c + (im d - im b), im = im a - im c + (re b - re d)\<rparr>"
proof -
  from assms obtain x0 x1 x2 x3 where
    x: "x0 = \<lparr>re = re a + re c + (re b + re d), im = im a + im c + (im b + im d)\<rparr>"
       "x1 = \<lparr>re = re a - re c - (im d - im b), im = im a - im c - (re b - re d)\<rparr>"
       "x2 = \<lparr>re = re a + re c - (re b + re d), im = im a + im c - (im b + im d)\<rparr>"
       "x3 = \<lparr>re = re a - re c + (im d - im b), im = im a - im c + (re b - re d)\<rparr>"
    and d: "div_each_cpx [x0, x1, x2, x3] four = Some q"
    by (auto simp: poly_from_eval_cpx_def add_cpx_eq sub_cpx_eq mul_cpx_eq i_cpx_sel
        plus_cpx_def minus_cpx_def times_cpx_def simp del: div_each_cpx.simps split: if_splits)
  from div_each_cpx_4 [OF d] show ?thesis unfolding x .
qed

lemma roundtrip_cpx_Some:
  assumes "eval_from_poly_cpx [a, b, c, d] = Some e" "poly_from_eval_cpx e = Some q"
  shows "q = [a, b, c, d]"
proof -
  from assms(1) have e: "e = map (dft_cpx [a, b, c, d]) [0..<4]"
    by (rule eval_from_poly_cpx_Some)
  from assms(2) [unfolded e dft_cpx_list, THEN poly_from_eval_cpx_Some]
  obtain q0 q1 q2 q3 where q: "q = [q0, q1, q2, q3]"
    and "times_cpx q0 four = \<lparr>re = 4 * re a, im = 4 * im a\<rparr>"
    and "times_cpx q1 four = \<lparr>re = 4 * re b, im = 4 * im b\<rparr>"
    and "times_cpx q2 four = \<lparr>re = 4 * re c, im = 4 * im c\<rparr>"
    and "times_cpx q3 four = \<lparr>re = 4 * re d, im = 4 * im d\<rparr>"
    by auto
  then have "q0 = a" "q1 = b" "q2 = c" "q3 = d"
    by (auto dest!: times_four_inj)
  with q show ?thesis by simp
qed

lemma cconj_four: "cconj four = Some four"
  by (simp add: cconj_eq four_def conj_cpx_def in_range_0)

lemma div_cpx_four:
  assumes "small 134217727 q"
  shows "div_cpx \<lparr>re = 4 * re q, im = 4 * im q\<rparr> four = Some q"
proof -
  have r: "trunc_quot (16 * re q) 16 = re q" "trunc_quot (16 * im q) 16 = im q"
    using trunc_quot_mult [of 16 "re q"] trunc_quot_mult [of 16 "im q"]
    by (simp_all add: mult.commute)
  show ?thesis
    using assms
    by (simp add: div_cpx_def cconj_four mul_cpx_eq four_sel times_cpx_def int_div_eq r
        new_complex_def assert_c_def equal_cpx_def small_def abs_le_iff
        in_range_def INT_MIN_def INT_MAX_def)
qed

lemma poly_from_eval_cpx_dft:
  assumes "small 134217727 a" "small 134217727 b" "small 134217727 c" "small 134217727 d"
  shows "poly_from_eval_cpx (map (dft_cpx [a, b, c, d]) [0..<4]) = Some [a, b, c, d]"
proof -
  have "poly_from_eval_cpx (map (dft_cpx [a, b, c, d]) [0..<4]) =
      div_each_cpx [\<lparr>re = 4 * re a, im = 4 * im a\<rparr>, \<lparr>re = 4 * re b, im = 4 * im b\<rparr>,
        \<lparr>re = 4 * re c, im = 4 * im c\<rparr>, \<lparr>re = 4 * re d, im = 4 * im d\<rparr>] four"
    unfolding dft_cpx_list
    using assms
    by (simp add: poly_from_eval_cpx_def add_cpx_eq sub_cpx_eq mul_cpx_eq i_cpx_sel
        plus_cpx_def minus_cpx_def times_cpx_def small_def abs_le_iff
        in_range_def INT_MIN_def INT_MAX_def del: div_each_cpx.simps)
  also have "\<dots> = Some [a, b, c, d]"
    by (simp add: div_cpx_four assms)
  finally show ?thesis .
qed

lemma small_mono: "small M a \<Longrightarrow> M \<le> N \<Longrightarrow> small N a"
  by (auto simp: small_def)

lemma roundtrip_cpx_small:
  assumes "small 134217727 a" "small 134217727 b" "small 134217727 c" "small 134217727 d"
  shows "eval_from_poly_cpx [a, b, c, d] \<bind> poly_from_eval_cpx = Some [a, b, c, d]"
  using assms
  by (simp add: eval_from_poly_cpx_small small_mono [where N = 536870911] poly_from_eval_cpx_dft
      del: map_eq_conv)



lemma abs_mult_le: "\<bar>x\<bar> \<le> A \<Longrightarrow> \<bar>y\<bar> \<le> B \<Longrightarrow> \<bar>x * y\<bar> \<le> A * (B :: int)"
  by (simp add: abs_mult mult_mono)

lemma in_range_abs: "\<bar>x\<bar> \<le> 2147483647 \<Longrightarrow> in_range x"
  by (simp add: in_range_def INT_MIN_def INT_MAX_def abs_le_iff)

lemma mul_cpx_small:
  assumes "small A a" "small B b" "2 * (A * B) \<le> 2147483647"
  shows "mul_cpx a b = Some (times_cpx a b)"
proof -
  have p: "\<bar>re a * re b\<bar> \<le> A * B" "\<bar>im a * im b\<bar> \<le> A * B"
      "\<bar>re a * im b\<bar> \<le> A * B" "\<bar>im a * re b\<bar> \<le> A * B"
    using assms(1,2) by (simp_all add: small_def abs_mult_le)
  then have "in_range (re a * re b)" "in_range (im a * im b)" "in_range (re a * im b)"
      "in_range (im a * re b)" "in_range (re a * re b - im a * im b)"
      "in_range (re a * im b + im a * re b)"
    using assms(3) by (auto intro!: in_range_abs)
  then show ?thesis by (simp add: mul_cpx_eq)
qed

lemma times_cpx_small:
  assumes "small A a" "small B b"
  shows "small (2 * (A * B)) (times_cpx a b)"
proof -
  have p: "\<bar>re a * re b\<bar> \<le> A * B" "\<bar>im a * im b\<bar> \<le> A * B"
      "\<bar>re a * im b\<bar> \<le> A * B" "\<bar>im a * re b\<bar> \<le> A * B"
    using assms(1,2) by (simp_all add: small_def abs_mult_le)
  then show ?thesis by (auto simp: small_def times_cpx_def)
qed

lemma times_cpx_commute: "times_cpx a b = times_cpx b a"
  by (simp add: times_cpx_def mult.commute add.commute)

lemma times_cpx_assoc: "times_cpx (times_cpx a b) c = times_cpx a (times_cpx b c)"
  by (simp add: times_cpx_def algebra_simps)

lemma times_cpx_one: "times_cpx a \<lparr>re = 1, im = 0\<rparr> = a"
  by (simp add: times_cpx_def)

lemma small_pos: "small M a \<Longrightarrow> a \<noteq> zero \<Longrightarrow> 1 \<le> M"
  by (cases a) (auto simp: small_def zero_def)

lemma small_conj: "small M a \<Longrightarrow> small M (conj_cpx a)"
  by (simp add: small_def conj_cpx_def)

lemma div_cpx_exact:
  assumes q: "small Q q" and b: "small B b" and nz: "b \<noteq> zero"
    and Q: "1 \<le> Q" and bound: "4 * (Q * (B * B)) \<le> 2147483647"
  shows "div_cpx (times_cpx q b) b = Some q"
proof -
  define X where "X = Q * (B * B)"
  have B: "1 \<le> B" using b nz by (rule small_pos)
  then have BB: "B \<le> B * B" by simp
  have "1 * (B * B) \<le> Q * (B * B)" using Q by (intro mult_right_mono) simp_all
  then have 1: "B * B \<le> X" by (simp add: X_def)
  have "Q * B \<le> Q * (B * B)" using Q BB by (intro mult_left_mono) simp_all
  then have 2: "Q * B \<le> X" by (simp add: X_def)
  have B1: "1 \<le> B * B" using B BB by linarith
  have "Q * 1 \<le> Q * (B * B)" using Q B1 by (intro mult_left_mono) simp_all
  then have 3: "Q \<le> X" by (simp add: X_def)
  have 4: "B \<le> X" using BB 1 by simp
  have X: "4 * X \<le> 2147483647" using bound by (simp add: X_def)
  define a where "a = times_cpx q b"
  define N where "N = norm2 b"
  have N: "N \<noteq> 0" using nz by (simp add: N_def norm2_eq_0)
  have a: "small (2 * (Q * B)) a" unfolding a_def using q b by (rule times_cpx_small)
  have c1: "cconj b = Some (conj_cpx b)"
    using b 4 X by (auto simp: cconj_eq small_def intro!: in_range_abs)
  have "2 * (2 * (Q * B) * B) \<le> 2147483647" using X by (simp add: X_def mult.assoc)
  with a small_conj [OF b] have c2: "mul_cpx a (conj_cpx b) = Some (times_cpx a (conj_cpx b))"
    by (rule mul_cpx_small)
  have "2 * (B * B) \<le> 2147483647" using 1 X by simp
  with b small_conj [OF b] have c3: "mul_cpx b (conj_cpx b) = Some \<lparr>re = N, im = 0\<rparr>"
    unfolding N_def times_conj [symmetric] by (rule mul_cpx_small)
  have ab: "times_cpx a (conj_cpx b) = \<lparr>re = re q * N, im = im q * N\<rparr>"
    by (simp add: a_def times_cpx_assoc times_conj N_def) (simp add: times_cpx_def)
  have rq: "in_range (re q)" "in_range (im q)"
    using q 3 X by (auto simp: small_def intro!: in_range_abs)
  have c4: "int_div (re q * N) N = Some (re q)" "int_div (im q * N) N = Some (im q)"
    using N rq by (simp_all add: int_div_eq trunc_quot_mult)
  have "2 * (Q * B) \<le> 2147483647" using 2 X by simp
  with q b have c5: "mul_cpx q b = Some a"
    unfolding a_def by (rule mul_cpx_small)
  have c6: "new_complex (re q) (im q) = q" by (simp add: new_complex_def)
  show ?thesis
    unfolding a_def [symmetric]
    by (simp add: div_cpx_def c1 c2 c3 ab c4 c5 c6 assert_c_def equal_cpx_def)
qed



lemma power_cpx_2: "power_cpx k 2 = times_cpx k k"
  by (simp add: numeral_2_eq_2 times_cpx_one)

lemma power_cpx_3: "power_cpx k 3 = times_cpx (times_cpx k k) k"
  by (simp add: numeral_3_eq_3 times_cpx_one times_cpx_commute)

lemma scale_cpx_Some:
  assumes "scale_cpx z k = Some q"
  shows "4 \<le> length z \<and> q = z[1 := times_cpx (z ! 1) k, 2 := times_cpx (z ! 2) (power_cpx k 2),
           3 := times_cpx (z ! 3) (power_cpx k 3)]"
  using assms unfolding power_cpx_2 power_cpx_3
  by (auto simp: scale_cpx_def bind_eq_Some_conv split: if_splits dest!: mul_cpx_Some)

lemma unscale_cpx_Some:
  assumes "unscale_cpx z k = Some q"
  shows "\<exists>q1 q2 q3. q = z[1 := q1, 2 := q2, 3 := q3]
     \<and> times_cpx q1 k = z ! 1 \<and> times_cpx q2 (power_cpx k 2) = z ! 2
     \<and> times_cpx q3 (power_cpx k 3) = z ! 3
     \<and> k \<noteq> zero \<and> power_cpx k 2 \<noteq> zero \<and> power_cpx k 3 \<noteq> zero"
  using assms unfolding power_cpx_2 power_cpx_3
  by (auto simp: unscale_cpx_def bind_eq_Some_conv split: if_splits dest!: mul_cpx_Some div_cpx_Some)

lemma unscale_scale_cpx_Some:
  assumes "scale_cpx z k = Some s" "unscale_cpx s k = Some r"
  shows "r = z"
proof -
  from scale_cpx_Some [OF assms(1)] have len: "4 \<le> length z"
    and s: "s = z[1 := times_cpx (z ! 1) k, 2 := times_cpx (z ! 2) (power_cpx k 2),
           3 := times_cpx (z ! 3) (power_cpx k 3)]"
    by simp_all
  from unscale_cpx_Some [OF assms(2)] obtain q1 q2 q3 where r: "r = s[1 := q1, 2 := q2, 3 := q3]"
    and q: "times_cpx q1 k = s ! 1" "times_cpx q2 (power_cpx k 2) = s ! 2"
      "times_cpx q3 (power_cpx k 3) = s ! 3"
    and nz: "k \<noteq> zero" "power_cpx k 2 \<noteq> zero" "power_cpx k 3 \<noteq> zero"
    by blast
  from len have n: "s ! 1 = times_cpx (z ! 1) k" "s ! 2 = times_cpx (z ! 2) (power_cpx k 2)"
      "s ! 3 = times_cpx (z ! 3) (power_cpx k 3)"
    by (simp_all add: s)
  from q(1) nz(1) have "q1 = z ! 1" unfolding n by (rule times_cpx_cancel)
  moreover from q(2) nz(2) have "q2 = z ! 2" unfolding n by (rule times_cpx_cancel)
  moreover from q(3) nz(3) have "q3 = z ! 3" unfolding n by (rule times_cpx_cancel)
  ultimately show ?thesis
    unfolding r s by (simp add: list_update_restore)
qed


lemma small_nth: "list_all (small P) z \<Longrightarrow> j < length z \<Longrightarrow> small P (z ! j)"
  by (simp add: list_all_length)

lemma times_cpx_nonzero: "a \<noteq> zero \<Longrightarrow> b \<noteq> zero \<Longrightarrow> times_cpx a b \<noteq> zero"
proof
  assume a: "a \<noteq> zero" and b: "b \<noteq> zero" and "times_cpx a b = zero"
  then have "times_cpx a b = times_cpx zero b"
    by (simp add: times_cpx_def zero_def)
  from times_cpx_cancel [OF this b] a show False by simp
qed

lemma power_bound:
  fixes K P M :: int
  assumes "1 \<le> K" "1 \<le> P" "64 * (P * K ^ 6) \<le> M" "n \<le> 6" "0 \<le> c" "c \<le> 64"
  shows "c * (P * K ^ n) \<le> M" and "c * K ^ n \<le> M"
proof -
  have 1: "K ^ n \<le> K ^ 6" using assms(1,4) by (rule power_increasing [rotated])
  have 0: "0 \<le> K ^ n" "0 \<le> P" using assms(1,2) by simp_all
  have 2: "P * K ^ n \<le> P * K ^ 6" using 1 0 by (intro mult_left_mono)
  have "1 * K ^ n \<le> P * K ^ n" using assms(2) 0 by (intro mult_right_mono)
  then have 3: "K ^ n \<le> P * K ^ 6" using 2 by simp
  have 4: "0 \<le> P * K ^ n" using 0 by simp
  have "c * (P * K ^ n) \<le> 64 * (P * K ^ n)" using assms(6) 4 by (intro mult_right_mono)
  also have "\<dots> \<le> 64 * (P * K ^ 6)" using 2 by simp
  finally show "c * (P * K ^ n) \<le> M" using assms(3) by simp
  have "c * K ^ n \<le> 64 * K ^ n" using assms(6) 0 by (intro mult_right_mono)
  also have "\<dots> \<le> 64 * (P * K ^ 6)" using 3 by simp
  finally show "c * K ^ n \<le> M" using assms(3) by simp
qed

lemma unscale_scale_cpx_small:
  assumes len: "4 \<le> length z" and zs: "list_all (small P) z" and k: "small K k"
    and nz: "k \<noteq> zero" and P: "1 \<le> P" and bound: "64 * (P * K ^ 6) \<le> 2147483647"
  shows "scale_cpx z k \<bind> (\<lambda>s. unscale_cpx s k) = Some z"
proof -
  have K: "1 \<le> K" using k nz by (rule small_pos)
  note pb = power_bound [OF K P bound]
  have z: "small P (z ! 1)" "small P (z ! 2)" "small P (z ! 3)"
    using len zs by (simp_all add: small_nth)
  define f2 where "f2 = times_cpx k k"
  define f3 where "f3 = times_cpx f2 k"
  have f2: "small (2 * K ^ 2) f2" "f2 \<noteq> zero"
    using times_cpx_small [OF k k] nz by (simp_all add: f2_def power2_eq_square times_cpx_nonzero)
  have f3: "small (4 * K ^ 3) f3" "f3 \<noteq> zero"
    using times_cpx_small [OF f2(1) k] f2(2) nz
    by (simp_all add: f3_def power3_eq_cube power2_eq_square times_cpx_nonzero mult.assoc)
  have m2: "mul_cpx k k = Some f2"
    unfolding f2_def using k k
  proof (rule mul_cpx_small)
    show "2 * (K * K) \<le> 2147483647" using pb(2) [of 2 2] by (simp add: power2_eq_square)
  qed
  have m3: "mul_cpx f2 k = Some f3"
    unfolding f3_def using f2(1) k
  proof (rule mul_cpx_small)
    show "2 * (2 * K ^ 2 * K) \<le> 2147483647"
      using pb(2) [of 3 4] by (simp add: power3_eq_cube power2_eq_square mult.assoc)
  qed
  have a1: "mul_cpx (z ! 1) k = Some (times_cpx (z ! 1) k)"
    using z(1) k
  proof (rule mul_cpx_small)
    show "2 * (P * K) \<le> 2147483647" using pb(1) [of 1 2] by simp
  qed
  have a2: "mul_cpx (z ! 2) f2 = Some (times_cpx (z ! 2) f2)"
    using z(2) f2(1)
  proof (rule mul_cpx_small)
    show "2 * (P * (2 * K ^ 2)) \<le> 2147483647" using pb(1) [of 2 4] by simp
  qed
  have a3: "mul_cpx (z ! 3) f3 = Some (times_cpx (z ! 3) f3)"
    using z(3) f3(1)
  proof (rule mul_cpx_small)
    show "2 * (P * (4 * K ^ 3)) \<le> 2147483647" using pb(1) [of 3 8] by simp
  qed
  have d1: "div_cpx (times_cpx (z ! 1) k) k = Some (z ! 1)"
    using z(1) k nz P
  proof (rule div_cpx_exact)
    show "4 * (P * (K * K)) \<le> 2147483647" using pb(1) [of 2 4] by (simp add: power2_eq_square)
  qed
  have d2: "div_cpx (times_cpx (z ! 2) f2) f2 = Some (z ! 2)"
    using z(2) f2 P
  proof (rule div_cpx_exact)
    have "4 * (P * (2 * K ^ 2 * (2 * K ^ 2))) = 16 * (P * K ^ 4)"
      by (simp add: power2_eq_square power4_eq_xxxx)
    then show "4 * (P * (2 * K ^ 2 * (2 * K ^ 2))) \<le> 2147483647" using pb(1) [of 4 16] by simp
  qed
  have d3: "div_cpx (times_cpx (z ! 3) f3) f3 = Some (z ! 3)"
    using z(3) f3 P
  proof (rule div_cpx_exact)
    have "K ^ 6 = K ^ 3 * K ^ 3" by (simp flip: power_add)
    then have "4 * (P * (4 * K ^ 3 * (4 * K ^ 3))) = 64 * (P * K ^ 6)"
      by simp
    then show "4 * (P * (4 * K ^ 3 * (4 * K ^ 3))) \<le> 2147483647" using bound by simp
  qed
  have s: "scale_cpx z k = Some (z[1 := times_cpx (z ! 1) k, 2 := times_cpx (z ! 2) f2,
      3 := times_cpx (z ! 3) f3])"
    using len by (simp add: scale_cpx_def a1 [unfolded One_nat_def] m2 a2 m3 a3)
  show ?thesis
    unfolding s using len
    by (simp add: unscale_cpx_def m2 m3 d1 [unfolded One_nat_def] d2 d3 list_update_restore)
qed



lemma scale_cpx_small:
  assumes len: "4 \<le> length z" and zs: "list_all (small P) z" and k: "small K k"
    and P: "1 \<le> P" and K: "1 \<le> K" and bound: "8 * (P * K ^ 3) \<le> 2147483647"
  shows "scale_cpx z k \<noteq> None"
proof -
  have "K ^ 3 \<le> K ^ 6" using K by (intro power_increasing) simp_all
  have z: "small P (z ! 1)" "small P (z ! 2)" "small P (z ! 3)"
    using len zs by (simp_all add: small_nth)
  have k1: "K \<le> K ^ 3" using K power_increasing [of 1 3 K] by simp
  have k2: "K ^ 2 \<le> K ^ 3" using K power_increasing [of 2 3 K] by simp
  have k0: "0 \<le> K ^ 3" "0 \<le> K ^ 2" using K by simp_all
  have pk: "1 * K ^ 3 \<le> P * K ^ 3" using P k0 by (intro mult_right_mono)
  have p1: "P * K \<le> P * K ^ 3" using k1 P by (intro mult_left_mono) simp_all
  have p2: "P * K ^ 2 \<le> P * K ^ 3" using k2 P by (intro mult_left_mono) simp_all
  define f2 where "f2 = times_cpx k k"
  define f3 where "f3 = times_cpx f2 k"
  have f2: "small (2 * K ^ 2) f2"
    using times_cpx_small [OF k k] by (simp add: f2_def power2_eq_square)
  have f3: "small (4 * K ^ 3) f3"
    using times_cpx_small [OF f2 k]
    by (simp add: f3_def power3_eq_cube power2_eq_square mult.assoc)
  have m2: "mul_cpx k k = Some f2"
    unfolding f2_def using k k
  proof (rule mul_cpx_small)
    show "2 * (K * K) \<le> 2147483647" using k2 pk bound by (simp add: power2_eq_square)
  qed
  have m3: "mul_cpx f2 k = Some f3"
    unfolding f3_def using f2 k
  proof (rule mul_cpx_small)
    show "2 * (2 * K ^ 2 * K) \<le> 2147483647"
      using pk bound by (simp add: power3_eq_cube power2_eq_square mult.assoc)
  qed
  have a1: "mul_cpx (z ! 1) k = Some (times_cpx (z ! 1) k)"
    using z(1) k
  proof (rule mul_cpx_small)
    show "2 * (P * K) \<le> 2147483647" using p1 bound by simp
  qed
  have a2: "mul_cpx (z ! 2) f2 = Some (times_cpx (z ! 2) f2)"
    using z(2) f2
  proof (rule mul_cpx_small)
    show "2 * (P * (2 * K ^ 2)) \<le> 2147483647" using p2 bound by simp
  qed
  have a3: "mul_cpx (z ! 3) f3 = Some (times_cpx (z ! 3) f3)"
    using z(3) f3
  proof (rule mul_cpx_small)
    show "2 * (P * (4 * K ^ 3)) \<le> 2147483647" using bound by simp
  qed
  show ?thesis
    using len by (simp add: scale_cpx_def a1 [unfolded One_nat_def] m2 a2 m3 a3)
qed



lemma frame_update:
  "s = p[1 := x, 2 := y, 3 := z]
    \<Longrightarrow> length s = length p \<and> s ! 0 = p ! 0 \<and> (\<forall>j. 3 < j \<longrightarrow> s ! j = p ! j)"
  by simp

lemma frame_fin:
  assumes "scale_fin p k = Some s \<or> unscale_fin p k = Some s"
  shows "length s = length p \<and> s ! 0 = p ! 0 \<and> (\<forall>j. 3 < j \<longrightarrow> s ! j = p ! j)"
proof -
  from assms obtain x y z where "s = p[1 := x, 2 := y, 3 := z]"
    by (auto simp: scale_fin_def unscale_fin_def bind_eq_Some_conv split: if_splits)
  then show ?thesis by (rule frame_update)
qed

lemma frame_cpx:
  assumes "scale_cpx p k = Some s \<or> unscale_cpx p k = Some s"
  shows "length s = length p \<and> s ! 0 = p ! 0 \<and> (\<forall>j. 3 < j \<longrightarrow> s ! j = p ! j)"
proof -
  from assms obtain x y z where "s = p[1 := x, 2 := y, 3 := z]"
    by (auto simp: scale_cpx_def unscale_cpx_def bind_eq_Some_conv split: if_splits)
  then show ?thesis by (rule frame_update)
qed



lemma div_abs_bounds: "0 \<le> \<bar>a\<bar> div \<bar>b\<bar> \<and> \<bar>a\<bar> div \<bar>b\<bar> \<le> \<bar>a :: int\<bar>"
  by (metis abs_0 abs_ge_zero div_0 div_int_pos_iff int_div_le_self zero_less_abs_iff)

lemma trunc_quot_abs_le: "\<bar>trunc_quot a b\<bar> \<le> \<bar>a\<bar>"
proof -
  define n where "n = \<bar>a\<bar> div \<bar>b\<bar>"
  have n: "0 \<le> n" "n \<le> \<bar>a\<bar>" using div_abs_bounds [of a b] by (simp_all add: n_def)
  have "\<bar>trunc_quot a b\<bar> = \<bar>sgn a * sgn b\<bar> * n"
    using n(1) by (simp add: trunc_quot_def abs_mult n_def)
  also have "\<dots> \<le> 1 * n"
    using n(1) by (intro mult_right_mono) (simp_all add: abs_mult)
  finally show ?thesis using n(2) by simp
qed

text \<open>Within the bound, every operation of \<open>div_cpx\<close> before the assertion is in range.\<close>

lemma div_cpx_steps:
  assumes x: "small A x" and y: "small B y" and nz: "y \<noteq> zero"
    and A: "1 \<le> A" and bound: "4 * (A * (B * B)) \<le> 2147483647"
  shows "\<exists>ab bb r j m.
      cconj y = Some (conj_cpx y) \<and> mul_cpx x (conj_cpx y) = Some ab
      \<and> mul_cpx y (conj_cpx y) = Some bb
      \<and> int_div (re ab) (re bb) = Some r \<and> int_div (im ab) (re bb) = Some j
      \<and> mul_cpx (new_complex r j) y = Some m
      \<and> div_cpx x y = (if equal_cpx x m then Some (new_complex r j) else None)
      \<and> ab = times_cpx x (conj_cpx y) \<and> re bb = norm2 y \<and> m = times_cpx (new_complex r j) y
      \<and> r = trunc_quot (re ab) (norm2 y) \<and> j = trunc_quot (im ab) (norm2 y)"
proof -
  define X where "X = A * (B * B)"
  have B: "1 \<le> B" using y nz by (rule small_pos)
  then have BB: "B \<le> B * B" by simp
  have B1: "1 \<le> B * B" using B BB by linarith
  have "1 * (B * B) \<le> A * (B * B)" using A by (intro mult_right_mono) simp_all
  then have 1: "B * B \<le> X" by (simp add: X_def)
  have "A * B \<le> A * (B * B)" using A BB by (intro mult_left_mono) simp_all
  then have 2: "A * B \<le> X" by (simp add: X_def)
  have 4: "B \<le> X" using BB 1 by simp
  have X: "4 * X \<le> 2147483647" using bound by (simp add: X_def)
  define ab where "ab = times_cpx x (conj_cpx y)"
  define N where "N = norm2 y"
  define r where "r = trunc_quot (re ab) N"
  define j where "j = trunc_quot (im ab) N"
  have N: "N \<noteq> 0" using nz by (simp add: N_def norm2_eq_0)
  have c1: "cconj y = Some (conj_cpx y)"
    using y 4 X by (auto simp: cconj_eq small_def intro!: in_range_abs)
  have "2 * (A * B) \<le> 2147483647" using 2 X by simp
  with x small_conj [OF y] have c2: "mul_cpx x (conj_cpx y) = Some ab"
    unfolding ab_def by (rule mul_cpx_small)
  have "2 * (B * B) \<le> 2147483647" using 1 X by simp
  with y small_conj [OF y] have c3: "mul_cpx y (conj_cpx y) = Some \<lparr>re = N, im = 0\<rparr>"
    unfolding N_def times_conj [symmetric] by (rule mul_cpx_small)
  have sab: "small (2 * (A * B)) ab"
    unfolding ab_def using x small_conj [OF y] by (rule times_cpx_small)
  have "\<bar>r\<bar> \<le> \<bar>re ab\<bar>" "\<bar>j\<bar> \<le> \<bar>im ab\<bar>"
    by (simp_all add: r_def j_def trunc_quot_abs_le)
  with sab have rj: "\<bar>r\<bar> \<le> 2 * (A * B)" "\<bar>j\<bar> \<le> 2 * (A * B)"
    by (auto simp: small_def)
  then have "in_range r" "in_range j"
    using 2 X by (auto intro!: in_range_abs)
  then have c4: "int_div (re ab) N = Some r" "int_div (im ab) N = Some j"
    using N by (simp_all add: int_div_eq r_def j_def)
  have st: "small (2 * (A * B)) (new_complex r j)"
    using rj by (simp add: small_def new_complex_def)
  have "2 * (2 * (A * B) * B) \<le> 2147483647" using X by (simp add: X_def mult.assoc)
  with st y have c5: "mul_cpx (new_complex r j) y = Some (times_cpx (new_complex r j) y)"
    by (rule mul_cpx_small)
  have d: "div_cpx x y =
      (if equal_cpx x (times_cpx (new_complex r j) y) then Some (new_complex r j) else None)"
    by (simp add: div_cpx_def c1 c2 c3 c4 c5 assert_c_def)
  show ?thesis
    using c1 c2 c3 c4 c5 d by (simp add: ab_def [symmetric] N_def [symmetric] r_def j_def)
qed

lemma div_cpx_None_iff:
  assumes x: "small A x" and y: "small B y" and nz: "y \<noteq> zero"
    and A: "1 \<le> A" and bound: "4 * (A * (B * B)) \<le> 2147483647"
  shows "div_cpx x y = None \<longleftrightarrow> (\<nexists>q. times_cpx q y = x)"
proof
  assume "div_cpx x y = None"
  show "\<nexists>q. times_cpx q y = x"
  proof
    assume "\<exists>q. times_cpx q y = x"
    then obtain q where q: "times_cpx q y = x" ..
    from div_cpx_steps [OF assms] obtain ab r j m where
      s: "div_cpx x y = (if equal_cpx x m then Some (new_complex r j) else None)"
        "ab = times_cpx x (conj_cpx y)" "m = times_cpx (new_complex r j) y"
        "r = trunc_quot (re ab) (norm2 y)" "j = trunc_quot (im ab) (norm2 y)"
      by blast
    have N: "norm2 y \<noteq> 0" using nz by (simp add: norm2_eq_0)
    have "ab = times_cpx q (times_cpx y (conj_cpx y))"
      by (simp add: s(2) q [symmetric] times_cpx_assoc)
    then have "ab = \<lparr>re = re q * norm2 y, im = im q * norm2 y\<rparr>"
      by (simp add: times_conj) (simp add: times_cpx_def)
    then have "r = re q" "j = im q"
      using N by (simp_all add: s(4,5) trunc_quot_mult)
    then have "new_complex r j = q" by (simp add: new_complex_def)
    then have "m = x" by (simp add: s(3) q)
    then have "div_cpx x y \<noteq> None" by (simp add: s(1) equal_cpx_def)
    with \<open>div_cpx x y = None\<close> show False by simp
  qed
next
  assume n: "\<nexists>q. times_cpx q y = x"
  show "div_cpx x y = None"
  proof (cases "div_cpx x y")
    case None
    then show ?thesis .
  next
    case (Some q)
    from div_cpx_Some [OF this] n show ?thesis by blast
  qed
qed



lemma unscale_fin_total:
  assumes "4 \<le> length p" "list_all canonical p" "canonical k" "k \<noteq> 0"
  shows "\<exists>q. unscale_fin p k = Some q"
proof -
  have c: "canonical (p ! 1)" "canonical (p ! 2)" "canonical (p ! 3)"
    using assms(1,2) by (simp_all add: canonical_nth)
  define f2 where "f2 = (k * k) mod 17"
  define f3 where "f3 = (f2 * k) mod 17"
  have f: "canonical f2" "canonical f3" by (simp_all add: f2_def f3_def)
  from assms(3,4) have "k \<in> set [1..16]" by (simp add: canonical_def MOD_def)
  with powers_nonzero_fin have nz: "f2 \<noteq> 0" "f3 \<noteq> 0"
    by (auto simp: f2_def f3_def)
  have d: "div_fin (p ! 1) k = Some ((p ! 1 * inverse_fin k) mod 17)"
      "div_fin (p ! 2) f2 = Some ((p ! 2 * inverse_fin f2) mod 17)"
      "div_fin (p ! 3) f3 = Some ((p ! 3 * inverse_fin f3) mod 17)"
    using c f nz assms(3,4) by (simp_all add: div_fin_canonical)
  show ?thesis
    using assms(1,3) d
    by (simp add: unscale_fin_def mul_fin_canonical f2_def f3_def)
qed

lemma scale_cpx_value:
  assumes "4 \<le> length z" "list_all (small P) z" "small K k" "1 \<le> P" "1 \<le> K"
    "8 * (P * K ^ 3) \<le> 2147483647"
  shows "scale_cpx z k = Some (z[1 := times_cpx (z ! 1) k, 2 := times_cpx (z ! 2) (power_cpx k 2),
           3 := times_cpx (z ! 3) (power_cpx k 3)])"
proof -
  from scale_cpx_small [OF assms] obtain s where s: "scale_cpx z k = Some s" by blast
  from scale_cpx_Some [OF this] s show ?thesis by simp
qed

lemma unscale_cpx_multiples:
  assumes "4 \<le> length z" "list_all (small P) z" "small K k" "k \<noteq> zero" "1 \<le> P"
    "64 * (P * K ^ 6) \<le> 2147483647"
  shows "unscale_cpx (z[1 := times_cpx (z ! 1) k, 2 := times_cpx (z ! 2) (power_cpx k 2),
           3 := times_cpx (z ! 3) (power_cpx k 3)]) k = Some z"
proof -
  from unscale_scale_cpx_small [OF assms] obtain s where
    s: "scale_cpx z k = Some s" "unscale_cpx s k = Some z"
    by (auto simp: bind_eq_Some_conv)
  from scale_cpx_Some [OF s(1)] s(2) show ?thesis by simp
qed


section \<open>The sample runs\<close>

text \<open>
  C1. End-to-end recovery. Over the integers modulo 17, the pipeline on the data polynomial
  \<open>[5, 7, 0, 0]\<close> with the evaluations at indices 1 and 2 erased, the zero polynomial
  \<open>[13, 14, 1, 0]\<close> and the scale factor 2 runs to completion and returns \<open>[5, 7, 0, 0]\<close>.
  Over the complex integers, the pipeline on \<open>[5, 7, 0, 0]\<close> with the same erasures, the zero
  polynomial \<open>[-i, 1 - i, 1, 0]\<close> and the scale factor 2 runs to completion and returns
  \<open>[5, 7, 0, 0]\<close>. These are the runs of the two \<^verbatim>\<open>main\<close> functions.
\<close>

theorem C1_end_to_end_recovery:
  "recover_fin [5, 7, 0, 0] [1, 2] [13, 14, 1, 0] 2 = Some [5, 7, 0, 0]
   \<and> main_fin = Some [5, 7, 0, 0]
   \<and> recover_cpx
        [\<lparr>re = 5, im = 0\<rparr>, \<lparr>re = 7, im = 0\<rparr>, \<lparr>re = 0, im = 0\<rparr>, \<lparr>re = 0, im = 0\<rparr>]
        [1, 2]
        [\<lparr>re = 0, im = - 1\<rparr>, \<lparr>re = 1, im = - 1\<rparr>, \<lparr>re = 1, im = 0\<rparr>, \<lparr>re = 0, im = 0\<rparr>]
        \<lparr>re = 2, im = 0\<rparr>
      = Some [\<lparr>re = 5, im = 0\<rparr>, \<lparr>re = 7, im = 0\<rparr>, \<lparr>re = 0, im = 0\<rparr>, \<lparr>re = 0, im = 0\<rparr>]
   \<and> main_cpx
      = Some [\<lparr>re = 5, im = 0\<rparr>, \<lparr>re = 7, im = 0\<rparr>, \<lparr>re = 0, im = 0\<rparr>, \<lparr>re = 0, im = 0\<rparr>]"
  by code_simp

text \<open>
  C8. The zero polynomial of the erasure pattern \<open>{1, 2}\<close>. Its forward transform is the
  additive identity at the indices 1 and 2 and differs from it at the indices 0 and 3, in
  both programs; equality is the \<^verbatim>\<open>equal\<close> of each program.
\<close>

theorem C8_zero_poly_roots:
  "eval_from_poly_fin [13, 14, 1, 0] = Some [11, 0, 0, 7]
   \<and> map (\<lambda>x. equal_fin x 0) [11, 0, 0, 7] = [Some False, Some True, Some True, Some False]
   \<and> eval_from_poly_cpx
        [\<lparr>re = 0, im = - 1\<rparr>, \<lparr>re = 1, im = - 1\<rparr>, \<lparr>re = 1, im = 0\<rparr>, \<lparr>re = 0, im = 0\<rparr>]
      = Some [\<lparr>re = 2, im = - 2\<rparr>, \<lparr>re = 0, im = 0\<rparr>, \<lparr>re = 0, im = 0\<rparr>, \<lparr>re = - 2, im = - 2\<rparr>]
   \<and> map (\<lambda>x. equal_cpx x zero)
        [\<lparr>re = 2, im = - 2\<rparr>, \<lparr>re = 0, im = 0\<rparr>, \<lparr>re = 0, im = 0\<rparr>, \<lparr>re = - 2, im = - 2\<rparr>]
      = [False, True, True, False]"
  by code_simp
section \<open>The transforms\<close>










section \<open>The arithmetic of the two domains\<close>


text \<open>
  C4 (as amended). Over the integers modulo 17 the values are canonical residues, in
  \<open>[0, 17)\<close>: whenever \<^verbatim>\<open>div(a, b)\<close> returns \<open>q\<close>, \<open>q\<close> is canonical and \<^verbatim>\<open>mul(q, b)\<close> returns
  \<open>a\<close>; \<^verbatim>\<open>div\<close> fails exactly when \<open>b = 0\<close> and \<open>a \<noteq> 0\<close>, which is exactly when no canonical
  \<open>q\<close> has \<^verbatim>\<open>mul(q, b) == a\<close>; \<^verbatim>\<open>div(0, 0)\<close> returns 0. Over the complex integers: whenever
  \<^verbatim>\<open>div(a, b)\<close> returns \<open>q\<close>, \<open>q * b = a\<close> and \<^verbatim>\<open>mul(q, b)\<close> returns \<open>a\<close>; \<^verbatim>\<open>div\<close> fails whenever
  \<open>b\<close> is zero, also for \<open>a\<close> zero. When \<open>b\<close> is not zero and the components of \<open>a\<close> and
  \<open>b\<close> are bounded by \<open>A \<ge> 1\<close> and \<open>B\<close> with \<open>4 * A * B * B \<le> INT_MAX\<close>, every \<^verbatim>\<open>int\<close>
  operation of \<^verbatim>\<open>div\<close> is in range, so that \<^verbatim>\<open>div\<close> returns the truncated quotient when its
  assertion holds and fails by its assertion otherwise, and it fails exactly when no complex
  integer \<open>q\<close> has \<open>q * b = a\<close>. When \<open>b\<close> is not zero, \<open>a = q * b\<close>, and the components of
  \<open>q\<close> and \<open>b\<close> are bounded by \<open>Q \<ge> 1\<close> and \<open>B\<close> with \<open>4 * Q * B * B \<le> INT_MAX\<close>, \<^verbatim>\<open>div\<close>
  returns \<open>q\<close>.
\<close>

theorem C4_division:
  "(canonical a \<and> canonical b \<longrightarrow>
      (\<forall>q. div_fin a b = Some q \<longrightarrow> canonical q \<and> mul_fin q b = Some a)
      \<and> (div_fin a b = None \<longleftrightarrow> b = 0 \<and> a \<noteq> 0)
      \<and> (div_fin a b = None \<longleftrightarrow> (\<nexists>q. canonical q \<and> mul_fin q b = Some a)))
   \<and> (\<forall>q. div_cpx x y = Some q \<longrightarrow> times_cpx q y = x \<and> mul_cpx q y = Some x)
   \<and> div_cpx x zero = None
   \<and> (y \<noteq> zero \<and> small A x \<and> small B y \<and> 1 \<le> A \<and> 4 * (A * (B * B)) \<le> INT_MAX \<longrightarrow>
        (\<exists>ab bb r j m.
            cconj y = Some (conj_cpx y) \<and> mul_cpx x (conj_cpx y) = Some ab
            \<and> mul_cpx y (conj_cpx y) = Some bb
            \<and> int_div (re ab) (re bb) = Some r \<and> int_div (im ab) (re bb) = Some j
            \<and> mul_cpx (new_complex r j) y = Some m
            \<and> div_cpx x y = (if equal_cpx x m then Some (new_complex r j) else None))
        \<and> (div_cpx x y = None \<longleftrightarrow> (\<nexists>q. times_cpx q y = x)))
   \<and> (y \<noteq> zero \<and> small Q w \<and> small B y \<and> 1 \<le> Q \<and> 4 * (Q * (B * B)) \<le> INT_MAX
        \<longrightarrow> div_cpx (times_cpx w y) y = Some w)"
proof -
  have 1: "canonical a \<and> canonical b \<longrightarrow>
      (\<forall>q. div_fin a b = Some q \<longrightarrow> canonical q \<and> mul_fin q b = Some a)
      \<and> (div_fin a b = None \<longleftrightarrow> b = 0 \<and> a \<noteq> 0)
      \<and> (div_fin a b = None \<longleftrightarrow> (\<nexists>q. canonical q \<and> mul_fin q b = Some a))"
    using div_fin_Some [of a b] div_fin_None [of a b] no_quotient_fin [of a b] by blast
  have 2: "\<forall>q. div_cpx x y = Some q \<longrightarrow> times_cpx q y = x \<and> mul_cpx q y = Some x"
    by (auto dest: div_cpx_Some)
  have 3: "y \<noteq> zero \<and> small A x \<and> small B y \<and> 1 \<le> A \<and> 4 * (A * (B * B)) \<le> INT_MAX \<longrightarrow>
        (\<exists>ab bb r j m.
            cconj y = Some (conj_cpx y) \<and> mul_cpx x (conj_cpx y) = Some ab
            \<and> mul_cpx y (conj_cpx y) = Some bb
            \<and> int_div (re ab) (re bb) = Some r \<and> int_div (im ab) (re bb) = Some j
            \<and> mul_cpx (new_complex r j) y = Some m
            \<and> div_cpx x y = (if equal_cpx x m then Some (new_complex r j) else None))
        \<and> (div_cpx x y = None \<longleftrightarrow> (\<nexists>q. times_cpx q y = x))"
  proof
    assume h: "y \<noteq> zero \<and> small A x \<and> small B y \<and> 1 \<le> A \<and> 4 * (A * (B * B)) \<le> INT_MAX"
    then have b: "4 * (A * (B * B)) \<le> 2147483647" by (simp add: INT_MAX_def)
    from h have f: "small A x" "small B y" "y \<noteq> zero" "1 \<le> A" by simp_all
    from div_cpx_steps [OF f b] obtain ab bb r j m where
      "cconj y = Some (conj_cpx y)" "mul_cpx x (conj_cpx y) = Some ab"
      "mul_cpx y (conj_cpx y) = Some bb"
      "int_div (re ab) (re bb) = Some r" "int_div (im ab) (re bb) = Some j"
      "mul_cpx (new_complex r j) y = Some m"
      "div_cpx x y = (if equal_cpx x m then Some (new_complex r j) else None)"
      by blast
    then have "\<exists>ab bb r j m.
            cconj y = Some (conj_cpx y) \<and> mul_cpx x (conj_cpx y) = Some ab
            \<and> mul_cpx y (conj_cpx y) = Some bb
            \<and> int_div (re ab) (re bb) = Some r \<and> int_div (im ab) (re bb) = Some j
            \<and> mul_cpx (new_complex r j) y = Some m
            \<and> div_cpx x y = (if equal_cpx x m then Some (new_complex r j) else None)"
      by blast
    moreover have "div_cpx x y = None \<longleftrightarrow> (\<nexists>q. times_cpx q y = x)"
      using f b by (rule div_cpx_None_iff)
    ultimately show "(\<exists>ab bb r j m.
            cconj y = Some (conj_cpx y) \<and> mul_cpx x (conj_cpx y) = Some ab
            \<and> mul_cpx y (conj_cpx y) = Some bb
            \<and> int_div (re ab) (re bb) = Some r \<and> int_div (im ab) (re bb) = Some j
            \<and> mul_cpx (new_complex r j) y = Some m
            \<and> div_cpx x y = (if equal_cpx x m then Some (new_complex r j) else None))
        \<and> (div_cpx x y = None \<longleftrightarrow> (\<nexists>q. times_cpx q y = x))" ..
  qed
  have 4: "y \<noteq> zero \<and> small Q w \<and> small B y \<and> 1 \<le> Q \<and> 4 * (Q * (B * B)) \<le> INT_MAX
        \<longrightarrow> div_cpx (times_cpx w y) y = Some w"
  proof
    assume h: "y \<noteq> zero \<and> small Q w \<and> small B y \<and> 1 \<le> Q \<and> 4 * (Q * (B * B)) \<le> INT_MAX"
    then have 5: "4 * (Q * (B * B)) \<le> 2147483647" by (simp add: INT_MAX_def)
    from h have "small Q w" "small B y" "y \<noteq> zero" "1 \<le> Q" by simp_all
    then show "div_cpx (times_cpx w y) y = Some w"
      using 5 by (rule div_cpx_exact)
  qed
  show ?thesis
    by (rule conjI [OF 1 conjI [OF 2 conjI [OF div_cpx_zero conjI [OF 3 4]]]])
qed

theorem C4_division_witness:
  "canonical 6 \<and> canonical 5 \<and> div_fin 6 5 = Some 8 \<and> mul_fin 8 5 = Some 6
   \<and> div_cpx \<lparr>re = 4, im = 7\<rparr> \<lparr>re = 2, im = 1\<rparr> = Some \<lparr>re = 3, im = 2\<rparr>
   \<and> mul_cpx \<lparr>re = 3, im = 2\<rparr> \<lparr>re = 2, im = 1\<rparr> = Some \<lparr>re = 4, im = 7\<rparr>
   \<and> \<lparr>re = 2, im = 0\<rparr> \<noteq> zero \<and> small 7 \<lparr>re = 7, im = 1\<rparr> \<and> small 2 \<lparr>re = 2, im = 0\<rparr>
   \<and> (1 :: int) \<le> 7 \<and> 4 * (7 * (2 * 2)) \<le> INT_MAX
   \<and> div_cpx \<lparr>re = 7, im = 1\<rparr> \<lparr>re = 2, im = 0\<rparr> = None
   \<and> (\<nexists>q. times_cpx q \<lparr>re = 2, im = 0\<rparr> = \<lparr>re = 7, im = 1\<rparr>)
   \<and> \<lparr>re = 2, im = 1\<rparr> \<noteq> zero \<and> small 3 \<lparr>re = 3, im = 2\<rparr> \<and> small 2 \<lparr>re = 2, im = 1\<rparr>
   \<and> (1 :: int) \<le> 3 \<and> 4 * (3 * (2 * 2)) \<le> INT_MAX
   \<and> div_cpx (times_cpx \<lparr>re = 3, im = 2\<rparr> \<lparr>re = 2, im = 1\<rparr>) \<lparr>re = 2, im = 1\<rparr>
      = Some \<lparr>re = 3, im = 2\<rparr>"
proof -
  have c: "canonical 6" "canonical 5"
    by (simp_all add: canonical_def MOD_def)
  have d: "div_fin 6 5 = Some 8"
    by code_simp
  have e: "div_cpx \<lparr>re = 4, im = 7\<rparr> \<lparr>re = 2, im = 1\<rparr> = Some \<lparr>re = 3, im = 2\<rparr>"
    by code_simp
  have h: "\<lparr>re = 2, im = 1\<rparr> \<noteq> zero" "small 3 \<lparr>re = 3, im = 2\<rparr>" "small 2 \<lparr>re = 2, im = 1\<rparr>"
      "(1 :: int) \<le> 3" "4 * (3 * (2 * 2)) \<le> INT_MAX"
    by (simp_all add: zero_def small_def INT_MAX_def)
  from C4_division [where a = 6 and b = 5 and x = "\<lparr>re = 4, im = 7\<rparr>" and y = "\<lparr>re = 2, im = 1\<rparr>"
      and Q = 3 and w = "\<lparr>re = 3, im = 2\<rparr>" and B = 2] c d e h
  have 1: "mul_fin 8 5 = Some 6"
      "mul_cpx \<lparr>re = 3, im = 2\<rparr> \<lparr>re = 2, im = 1\<rparr> = Some \<lparr>re = 4, im = 7\<rparr>"
      "div_cpx (times_cpx \<lparr>re = 3, im = 2\<rparr> \<lparr>re = 2, im = 1\<rparr>) \<lparr>re = 2, im = 1\<rparr>
        = Some \<lparr>re = 3, im = 2\<rparr>"
    by blast+
  have g: "\<lparr>re = 2, im = 0\<rparr> \<noteq> zero" "small 7 \<lparr>re = 7, im = 1\<rparr>" "small 2 \<lparr>re = 2, im = 0\<rparr>"
      "(1 :: int) \<le> 7" "4 * (7 * (2 * 2)) \<le> INT_MAX"
    by (simp_all add: zero_def small_def INT_MAX_def)
  have n: "div_cpx \<lparr>re = 7, im = 1\<rparr> \<lparr>re = 2, im = 0\<rparr> = None"
    by code_simp
  from C4_division [where x = "\<lparr>re = 7, im = 1\<rparr>" and y = "\<lparr>re = 2, im = 0\<rparr>" and A = 7 and B = 2] g n
  have 2: "\<nexists>q. times_cpx q \<lparr>re = 2, im = 0\<rparr> = \<lparr>re = 7, im = 1\<rparr>"
    by blast
  from c d e h 1 g n 2 show ?thesis by (simp only: simp_thms)
qed

text \<open>
  As first written, C4 has \<^verbatim>\<open>div\<close> fail for every zero divisor and fail exactly when no
  exact quotient exists. Over the integers modulo 17, \<^verbatim>\<open>div(0, 0)\<close> returns 0: the table entry
  for the divisor 0 is 0, and the assertion \<^verbatim>\<open>equal(0, mul(0, 0))\<close> holds. Over the complex
  integers, \<^verbatim>\<open>div\<close> of zero by zero fails in the integer division although
  \<^verbatim>\<open>mul(zero, zero) == zero\<close>.
\<close>

theorem C4_division_counterexample:
  "canonical 0 \<and> div_fin 0 0 = Some 0
   \<and> div_cpx zero zero = None \<and> mul_cpx zero zero = Some zero"
  by code_simp





text \<open>
  C5 (as amended). On canonical residues, \<^verbatim>\<open>add\<close>, \<^verbatim>\<open>sub\<close> and \<^verbatim>\<open>mul\<close> return a canonical
  residue, and so does \<^verbatim>\<open>div\<close> whenever it returns. \<^verbatim>\<open>neg(a)\<close> returns \<open>MOD - a\<close>, a value
  in \<open>[1, MOD]\<close>: canonical for \<open>a \<noteq> 0\<close>, and the unreduced \<open>MOD\<close> for \<open>a = 0\<close>, which
  \<^verbatim>\<open>equal\<close> identifies with 0.
\<close>

theorem C5_canonical_results:
  assumes "canonical a" "canonical b"
  shows "(\<exists>r. add_fin a b = Some r \<and> canonical r)
    \<and> (\<exists>r. sub_fin a b = Some r \<and> canonical r)
    \<and> (\<exists>r. mul_fin a b = Some r \<and> canonical r)
    \<and> (\<forall>q. div_fin a b = Some q \<longrightarrow> canonical q)
    \<and> (b \<noteq> 0 \<longrightarrow> (\<exists>q. div_fin a b = Some q \<and> canonical q))
    \<and> neg_fin a = Some (MOD - a) \<and> 1 \<le> MOD - a \<and> MOD - a \<le> MOD
    \<and> (canonical (MOD - a) \<longleftrightarrow> a \<noteq> 0)
    \<and> equal_fin (MOD - a) ((MOD - a) mod MOD) = Some True"
proof -
  have 1: "\<forall>q. div_fin a b = Some q \<longrightarrow> canonical q"
    using div_fin_Some [OF assms] by blast
  have 2: "b \<noteq> 0 \<longrightarrow> (\<exists>q. div_fin a b = Some q \<and> canonical q)"
    using assms by (simp add: div_fin_canonical)
  have 3: "neg_fin a = Some (MOD - a)" "1 \<le> MOD - a" "MOD - a \<le> MOD" "canonical (MOD - a) \<longleftrightarrow> a \<noteq> 0"
    using assms(1) by (auto simp: neg_fin_canonical MOD_def canonical_def)
  have "0 \<le> MOD - a" "0 \<le> (MOD - a) mod MOD" using assms(1) by (simp_all add: canonical_def MOD_def)
  then have 4: "equal_fin (MOD - a) ((MOD - a) mod MOD) = Some True"
    by (simp add: equal_fin_def int_mod_MOD) (simp add: MOD_def)
  from assms 1 2 3 4 show ?thesis
    by (simp add: add_fin_canonical sub_fin_canonical mul_fin_canonical)
qed

theorem C5_canonical_results_witness:
  "canonical 3 \<and> canonical 5
    \<and> add_fin 3 5 = Some 8 \<and> sub_fin 3 5 = Some 15 \<and> mul_fin 3 5 = Some 15
    \<and> div_fin 3 5 = Some 4 \<and> canonical 4 \<and> neg_fin 3 = Some 14"
proof -
  have c: "canonical 3" "canonical 5"
    by (simp_all add: canonical_def MOD_def)
  have d: "div_fin 3 5 = Some 4"
    by code_simp
  from C5_canonical_results [OF c] d have "canonical 4" "neg_fin 3 = Some (MOD - 3)"
    by blast+
  then show ?thesis
    using c d by (simp add: add_fin_canonical sub_fin_canonical mul_fin_canonical MOD_def)
qed

text \<open>As first written, C5 includes \<^verbatim>\<open>neg\<close>; but \<^verbatim>\<open>neg(0)\<close> is 17.\<close>

theorem C5_canonical_results_counterexample:
  "canonical 0 \<and> neg_fin 0 = Some 17 \<and> \<not> canonical 17"
  by code_simp



section \<open>Totality of the inverse transform modulo 17\<close>

text \<open>
  C10. The inverse transform over the integers modulo 17 is total on canonical residues:
  each division by 4 returns, its result multiplied by 4 is the dividend again, and
  \<^verbatim>\<open>poly_from_eval\<close> returns four canonical residues.
\<close>

theorem C10_poly_from_eval_fin_total:
  "(canonical x \<longrightarrow> (\<exists>q. div_fin x 4 = Some q \<and> canonical q \<and> mul_fin q 4 = Some x))
   \<and> (length e = 4 \<and> list_all canonical e
       \<longrightarrow> (\<exists>c. poly_from_eval_fin e = Some c \<and> length c = 4 \<and> list_all canonical c))"
proof (intro conjI impI)
  assume x: "canonical x"
  then have "div_fin x 4 = Some ((x * 13) mod 17)" by (rule div_fin_4)
  with div_fin_Some [OF x canonical_4 this]
  show "\<exists>q. div_fin x 4 = Some q \<and> canonical q \<and> mul_fin q 4 = Some x" by simp
next
  assume "length e = 4 \<and> list_all canonical e"
  then obtain a b c d where "e = [a, b, c, d]" "canonical a" "canonical b" "canonical c" "canonical d"
    using length_4 [of e] by auto
  then show "\<exists>c. poly_from_eval_fin e = Some c \<and> length c = 4 \<and> list_all canonical c"
    by (simp add: poly_from_eval_fin_canonical)
qed

theorem C10_poly_from_eval_fin_total_witness:
  "canonical 12 \<and> div_fin 12 4 = Some 3 \<and> mul_fin 3 4 = Some 12
   \<and> length [12, 16, 15, 11 :: int] = 4 \<and> list_all canonical [12, 16, 15, 11]
   \<and> poly_from_eval_fin [12, 16, 15, 11] = Some [5, 7, 0, 0]"
proof -
  have c: "canonical 12" "length [12, 16, 15, 11 :: int] = 4 \<and> list_all canonical [12, 16, 15, 11]"
    by (simp_all add: canonical_def MOD_def)
  from C10_poly_from_eval_fin_total [of 12 "[12, 16, 15, 11]"] c
  obtain q r where "div_fin 12 4 = Some q" "mul_fin q 4 = Some 12" "poly_from_eval_fin [12, 16, 15, 11] = Some r"
    by blast
  moreover have "div_fin 12 4 = Some 3" "poly_from_eval_fin [12, 16, 15, 11] = Some [5, 7, 0, 0]"
    by code_simp+
  ultimately show ?thesis using c by simp
qed

section \<open>Scaling and unscaling\<close>




text \<open>
  C7 (as amended). What \<^verbatim>\<open>scale\<close> and \<^verbatim>\<open>unscale\<close> change. For every array and every scale
  factor, in both programs, the array a call returns has the length of the argument, the same
  entry 0 and the same entries after the third: only the entries 1, 2 and 3 are written. Over
  the integers modulo 17, on canonical residues: \<^verbatim>\<open>scale\<close> returns, and entry \<open>j\<close> is
  \<open>p[j] * k ^ j\<close> reduced modulo 17; whenever \<^verbatim>\<open>unscale\<close> returns, the new entry \<open>j\<close> is a
  canonical residue whose product with \<open>k ^ j\<close> is \<open>p[j]\<close> modulo 17; and \<^verbatim>\<open>unscale\<close> does
  return when \<open>k \<noteq> 0\<close>. Over the complex integers: whenever \<^verbatim>\<open>scale\<close> returns, entry \<open>j\<close> is
  \<open>p[j] * k ^ j\<close>, and whenever \<^verbatim>\<open>unscale\<close> returns, the product of the new entry \<open>j\<close> with
  \<open>k ^ j\<close> is \<open>p[j]\<close>; \<^verbatim>\<open>scale\<close> returns when the components of the coefficients and of \<open>k\<close>
  are bounded by \<open>P \<ge> 1\<close> and \<open>K \<ge> 1\<close> with \<open>8 * P * K ^ 3 \<le> INT_MAX\<close>; \<^verbatim>\<open>unscale\<close> returns
  \<open>q\<close> on the array whose entries 1, 2 and 3 are \<open>q[j] * k ^ j\<close> when \<open>k\<close> is not zero and
  the components of \<open>q\<close> and of \<open>k\<close> are bounded by \<open>P \<ge> 1\<close> and \<open>K\<close> with
  \<open>64 * P * K ^ 6 \<le> INT_MAX\<close>.
\<close>

theorem C7_scale_unscale_frame:
  "(\<forall>s. scale_fin a f = Some s \<or> unscale_fin a f = Some s \<longrightarrow>
         length s = length a \<and> s ! 0 = a ! 0 \<and> (\<forall>j. 3 < j \<longrightarrow> s ! j = a ! j))
   \<and> (\<forall>s. scale_cpx z c = Some s \<or> unscale_cpx z c = Some s \<longrightarrow>
         length s = length z \<and> s ! 0 = z ! 0 \<and> (\<forall>j. 3 < j \<longrightarrow> s ! j = z ! j))
   \<and> (4 \<le> length p \<and> list_all canonical p \<and> canonical k \<longrightarrow>
      scale_fin p k =
        Some (p[1 := (p ! 1 * k) mod MOD, 2 := (p ! 2 * k ^ 2) mod MOD, 3 := (p ! 3 * k ^ 3) mod MOD])
      \<and> (\<forall>q. unscale_fin p k = Some q \<longrightarrow>
           (\<exists>q1 q2 q3. q = p[1 := q1, 2 := q2, 3 := q3]
              \<and> canonical q1 \<and> canonical q2 \<and> canonical q3
              \<and> (q1 * k) mod MOD = p ! 1 \<and> (q2 * k ^ 2) mod MOD = p ! 2
              \<and> (q3 * k ^ 3) mod MOD = p ! 3))
      \<and> (k \<noteq> 0 \<longrightarrow>
           (\<exists>q1 q2 q3. unscale_fin p k = Some (p[1 := q1, 2 := q2, 3 := q3])
              \<and> canonical q1 \<and> canonical q2 \<and> canonical q3
              \<and> (q1 * k) mod MOD = p ! 1 \<and> (q2 * k ^ 2) mod MOD = p ! 2
              \<and> (q3 * k ^ 3) mod MOD = p ! 3)))
   \<and> (\<forall>s. scale_cpx z c = Some s \<longrightarrow>
         s = z[1 := times_cpx (z ! 1) c, 2 := times_cpx (z ! 2) (power_cpx c 2),
               3 := times_cpx (z ! 3) (power_cpx c 3)])
   \<and> (\<forall>s. unscale_cpx z c = Some s \<longrightarrow>
         (\<exists>q1 q2 q3. s = z[1 := q1, 2 := q2, 3 := q3]
            \<and> times_cpx q1 c = z ! 1 \<and> times_cpx q2 (power_cpx c 2) = z ! 2
            \<and> times_cpx q3 (power_cpx c 3) = z ! 3))
   \<and> (4 \<le> length z \<and> list_all (small P) z \<and> small K c \<and> 1 \<le> P \<and> 1 \<le> K
        \<and> 8 * (P * K ^ 3) \<le> INT_MAX
      \<longrightarrow> scale_cpx z c =
            Some (z[1 := times_cpx (z ! 1) c, 2 := times_cpx (z ! 2) (power_cpx c 2),
                    3 := times_cpx (z ! 3) (power_cpx c 3)]))
   \<and> (4 \<le> length z \<and> list_all (small P) z \<and> small K c \<and> c \<noteq> zero \<and> 1 \<le> P
        \<and> 64 * (P * K ^ 6) \<le> INT_MAX
      \<longrightarrow> unscale_cpx (z[1 := times_cpx (z ! 1) c, 2 := times_cpx (z ! 2) (power_cpx c 2),
                          3 := times_cpx (z ! 3) (power_cpx c 3)]) c
          = Some z)"
proof (intro conjI impI allI)
  fix s j
  assume "scale_fin a f = Some s \<or> unscale_fin a f = Some s"
  from frame_fin [OF this]
  show "length s = length a" "s ! 0 = a ! 0" "3 < j \<Longrightarrow> s ! j = a ! j"
    by simp_all
next
  fix s j
  assume "scale_cpx z c = Some s \<or> unscale_cpx z c = Some s"
  from frame_cpx [OF this]
  show "length s = length z" "s ! 0 = z ! 0" "3 < j \<Longrightarrow> s ! j = z ! j"
    by simp_all
next
  assume "4 \<le> length p \<and> list_all canonical p \<and> canonical k"
  then show "scale_fin p k =
      Some (p[1 := (p ! 1 * k) mod MOD, 2 := (p ! 2 * k ^ 2) mod MOD, 3 := (p ! 3 * k ^ 3) mod MOD])"
    by (simp only: scale_fin_powers)
next
  fix q
  assume "4 \<le> length p \<and> list_all canonical p \<and> canonical k" "unscale_fin p k = Some q"
  then show "\<exists>q1 q2 q3. q = p[1 := q1, 2 := q2, 3 := q3]
              \<and> canonical q1 \<and> canonical q2 \<and> canonical q3
              \<and> (q1 * k) mod MOD = p ! 1 \<and> (q2 * k ^ 2) mod MOD = p ! 2
              \<and> (q3 * k ^ 3) mod MOD = p ! 3"
    by (simp only: unscale_fin_Some)
next
  assume h: "4 \<le> length p \<and> list_all canonical p \<and> canonical k" and k: "k \<noteq> 0"
  then have f: "4 \<le> length p" "list_all canonical p" "canonical k" by simp_all
  from unscale_fin_total [OF f k] obtain q where q: "unscale_fin p k = Some q" ..
  from unscale_fin_Some [OF f q] q
  show "\<exists>q1 q2 q3. unscale_fin p k = Some (p[1 := q1, 2 := q2, 3 := q3])
              \<and> canonical q1 \<and> canonical q2 \<and> canonical q3
              \<and> (q1 * k) mod MOD = p ! 1 \<and> (q2 * k ^ 2) mod MOD = p ! 2
              \<and> (q3 * k ^ 3) mod MOD = p ! 3"
    by blast
next
  fix s
  assume "scale_cpx z c = Some s"
  from scale_cpx_Some [OF this]
  show "s = z[1 := times_cpx (z ! 1) c, 2 := times_cpx (z ! 2) (power_cpx c 2),
               3 := times_cpx (z ! 3) (power_cpx c 3)]"
    by (rule conjunct2)
next
  fix s
  assume "unscale_cpx z c = Some s"
  from unscale_cpx_Some [OF this]
  show "\<exists>q1 q2 q3. s = z[1 := q1, 2 := q2, 3 := q3]
            \<and> times_cpx q1 c = z ! 1 \<and> times_cpx q2 (power_cpx c 2) = z ! 2
            \<and> times_cpx q3 (power_cpx c 3) = z ! 3"
    by blast
next
  assume h: "4 \<le> length z \<and> list_all (small P) z \<and> small K c \<and> 1 \<le> P \<and> 1 \<le> K
        \<and> 8 * (P * K ^ 3) \<le> INT_MAX"
  then have b: "8 * (P * K ^ 3) \<le> 2147483647" by (simp add: INT_MAX_def)
  from h have "4 \<le> length z" "list_all (small P) z" "small K c" "1 \<le> P" "1 \<le> K"
    by simp_all
  then show "scale_cpx z c =
            Some (z[1 := times_cpx (z ! 1) c, 2 := times_cpx (z ! 2) (power_cpx c 2),
                    3 := times_cpx (z ! 3) (power_cpx c 3)])"
    using b by (rule scale_cpx_value)
next
  assume h: "4 \<le> length z \<and> list_all (small P) z \<and> small K c \<and> c \<noteq> zero \<and> 1 \<le> P
        \<and> 64 * (P * K ^ 6) \<le> INT_MAX"
  then have b: "64 * (P * K ^ 6) \<le> 2147483647" by (simp add: INT_MAX_def)
  from h have "4 \<le> length z" "list_all (small P) z" "small K c" "c \<noteq> zero" "1 \<le> P"
    by simp_all
  then show "unscale_cpx (z[1 := times_cpx (z ! 1) c, 2 := times_cpx (z ! 2) (power_cpx c 2),
                          3 := times_cpx (z ! 3) (power_cpx c 3)]) c
          = Some z"
    using b by (rule unscale_cpx_multiples)
qed

theorem C7_scale_unscale_frame_witness:
  "4 \<le> length [5, 14, 12, 9 :: int] \<and> list_all canonical [5, 14, 12, 9] \<and> canonical 2
   \<and> (2 :: int) \<noteq> 0
   \<and> scale_fin [5, 14, 12, 9] 2 = Some [5, 11, 14, 4]
   \<and> [5, 11, 14, 4] ! 0 = [5, 14, 12, 9 :: int] ! 0
   \<and> unscale_fin [5, 14, 12, 9] 2 = Some [5, 7, 3, 16]
   \<and> (\<exists>q1 q2 q3. [5, 7, 3, 16] = [5, 14, 12, 9][1 := q1, 2 := q2, 3 := q3]
        \<and> (q1 * 2) mod MOD = 14 \<and> (q2 * 2 ^ 2) mod MOD = 12 \<and> (q3 * 2 ^ 3) mod MOD = 9)
   \<and> list_all (small 16) [\<lparr>re = 5, im = 0\<rparr>, \<lparr>re = 14, im = - 2\<rparr>, \<lparr>re = 0, im = 12\<rparr>, \<lparr>re = - 16, im = 8\<rparr>]
   \<and> small 2 two \<and> two \<noteq> zero \<and> (1 :: int) \<le> 16 \<and> (1 :: int) \<le> 2
   \<and> 8 * (16 * 2 ^ 3) \<le> INT_MAX \<and> 64 * (16 * 2 ^ 6) \<le> INT_MAX
   \<and> scale_cpx [\<lparr>re = 5, im = 0\<rparr>, \<lparr>re = 14, im = - 2\<rparr>, \<lparr>re = 0, im = 12\<rparr>, \<lparr>re = - 16, im = 8\<rparr>] two
      = Some [\<lparr>re = 5, im = 0\<rparr>, \<lparr>re = 28, im = - 4\<rparr>, \<lparr>re = 0, im = 48\<rparr>, \<lparr>re = - 128, im = 64\<rparr>]
   \<and> unscale_cpx [\<lparr>re = 5, im = 0\<rparr>, \<lparr>re = 28, im = - 4\<rparr>, \<lparr>re = 0, im = 48\<rparr>, \<lparr>re = - 128, im = 64\<rparr>] two
      = Some [\<lparr>re = 5, im = 0\<rparr>, \<lparr>re = 14, im = - 2\<rparr>, \<lparr>re = 0, im = 12\<rparr>, \<lparr>re = - 16, im = 8\<rparr>]
   \<and> [\<lparr>re = 5, im = 0\<rparr>, \<lparr>re = 28, im = - 4\<rparr>, \<lparr>re = 0, im = 48\<rparr>, \<lparr>re = - 128, im = 64\<rparr>] ! 0
      = [\<lparr>re = 5, im = 0\<rparr>, \<lparr>re = 14, im = - 2\<rparr>, \<lparr>re = 0, im = 12\<rparr>, \<lparr>re = - 16, im = 8\<rparr>] ! 0
   \<and> unscale_cpx [\<lparr>re = 5, im = 0\<rparr>, \<lparr>re = 14, im = - 2\<rparr>, \<lparr>re = 0, im = 12\<rparr>, \<lparr>re = - 16, im = 8\<rparr>] two
      = Some [\<lparr>re = 5, im = 0\<rparr>, \<lparr>re = 7, im = - 1\<rparr>, \<lparr>re = 0, im = 3\<rparr>, \<lparr>re = - 2, im = 1\<rparr>]
   \<and> [\<lparr>re = 5, im = 0\<rparr>, \<lparr>re = 7, im = - 1\<rparr>, \<lparr>re = 0, im = 3\<rparr>, \<lparr>re = - 2, im = 1\<rparr>] ! 0
      = [\<lparr>re = 5, im = 0\<rparr>, \<lparr>re = 14, im = - 2\<rparr>, \<lparr>re = 0, im = 12\<rparr>, \<lparr>re = - 16, im = 8\<rparr>] ! 0
   \<and> (\<exists>q1 q2 q3. [\<lparr>re = 5, im = 0\<rparr>, \<lparr>re = 7, im = - 1\<rparr>, \<lparr>re = 0, im = 3\<rparr>, \<lparr>re = - 2, im = 1\<rparr>]
          = [\<lparr>re = 5, im = 0\<rparr>, \<lparr>re = 14, im = - 2\<rparr>, \<lparr>re = 0, im = 12\<rparr>, \<lparr>re = - 16, im = 8\<rparr>]
              [1 := q1, 2 := q2, 3 := q3]
        \<and> times_cpx q1 two = \<lparr>re = 14, im = - 2\<rparr>
        \<and> times_cpx q2 (power_cpx two 2) = \<lparr>re = 0, im = 12\<rparr>
        \<and> times_cpx q3 (power_cpx two 3) = \<lparr>re = - 16, im = 8\<rparr>)"
proof -
  define p :: "int list" where "p = [5, 14, 12, 9]"
  define z where "z = [\<lparr>re = 5, im = 0\<rparr>, \<lparr>re = 14, im = - 2\<rparr>, \<lparr>re = 0, im = 12\<rparr>, \<lparr>re = - 16, im = 8\<rparr>]"
  define s where "s = [\<lparr>re = 5, im = 0\<rparr>, \<lparr>re = 28, im = - 4\<rparr>, \<lparr>re = 0, im = 48\<rparr>, \<lparr>re = - 128, im = 64\<rparr>]"
  define u where "u = [\<lparr>re = 5, im = 0\<rparr>, \<lparr>re = 7, im = - 1\<rparr>, \<lparr>re = 0, im = 3\<rparr>, \<lparr>re = - 2, im = 1\<rparr>]"
  have h1: "4 \<le> length p \<and> list_all canonical p \<and> canonical 2" "(2 :: int) \<noteq> 0"
    by (simp_all add: p_def canonical_def MOD_def)
  have h2: "4 \<le> length z \<and> list_all (small 16) z \<and> small 2 two \<and> (1 :: int) \<le> 16 \<and> (1 :: int) \<le> 2
      \<and> 8 * (16 * 2 ^ 3) \<le> INT_MAX"
    by (simp add: z_def small_def two_def INT_MAX_def)
  have h3: "4 \<le> length z \<and> list_all (small 16) z \<and> small 2 two \<and> two \<noteq> zero \<and> (1 :: int) \<le> 16
      \<and> 64 * (16 * 2 ^ 6) \<le> INT_MAX"
    by (simp add: z_def small_def two_def zero_def INT_MAX_def)
  have sc: "z[1 := times_cpx (z ! 1) two, 2 := times_cpx (z ! 2) (power_cpx two 2),
      3 := times_cpx (z ! 3) (power_cpx two 3)] = s"
    unfolding z_def s_def by code_simp
  note t = C7_scale_unscale_frame [where a = p and f = 2 and z = z and c = two and p = p
      and k = 2 and P = 16 and K = 2]
  from t h1 have s1: "scale_fin p 2 = Some [5, 11, 14, 4]"
    by (simp add: p_def MOD_def)
  from t s1 have f1: "[5, 11, 14, 4] ! 0 = p ! 0"
    by blast
  from t h1 obtain q1 q2 q3 where v: "unscale_fin p 2 = Some (p[1 := q1, 2 := q2, 3 := q3])"
      "(q1 * 2) mod MOD = p ! 1" "(q2 * 2 ^ 2) mod MOD = p ! 2" "(q3 * 2 ^ 3) mod MOD = p ! 3"
    by blast
  have u1: "unscale_fin p 2 = Some [5, 7, 3, 16]"
    unfolding p_def by code_simp
  with v have e1: "\<exists>q1 q2 q3. [5, 7, 3, 16] = p[1 := q1, 2 := q2, 3 := q3]
        \<and> (q1 * 2) mod MOD = p ! 1 \<and> (q2 * 2 ^ 2) mod MOD = p ! 2 \<and> (q3 * 2 ^ 3) mod MOD = p ! 3"
    by auto
  from t h2 have s2: "scale_cpx z two = Some s"
    unfolding sc by blast
  from t h3 have u2: "unscale_cpx s two = Some z"
    unfolding sc by blast
  from t s2 have f2: "s ! 0 = z ! 0"
    by blast
  have u3: "unscale_cpx z two = Some u"
    unfolding z_def u_def by code_simp
  from t u3 have f3: "u ! 0 = z ! 0"
    by blast
  from t u3 have e3: "\<exists>q1 q2 q3. u = z[1 := q1, 2 := q2, 3 := q3]
        \<and> times_cpx q1 two = z ! 1 \<and> times_cpx q2 (power_cpx two 2) = z ! 2
        \<and> times_cpx q3 (power_cpx two 3) = z ! 3"
    by blast
  have n: "p ! 1 = 14" "p ! 2 = 12" "p ! 3 = 9" "z ! 1 = \<lparr>re = 14, im = - 2\<rparr>"
      "z ! 2 = \<lparr>re = 0, im = 12\<rparr>" "z ! 3 = \<lparr>re = - 16, im = 8\<rparr>"
    by (simp_all add: p_def z_def)
  from h1 h2 h3 s1 f1 u1 e1 s2 u2 f2 u3 f3 e3 show ?thesis
    unfolding n unfolding p_def z_def s_def u_def by (simp only: simp_thms)
qed

text \<open>
  As first written, C7 holds for every polynomial and every scale factor. Over the integers
  modulo 17, \<^verbatim>\<open>unscale\<close> with the factor 0 fails the assertion of \<^verbatim>\<open>div\<close> on the coefficient
  1. Over the complex integers, \<^verbatim>\<open>scale\<close> with the factor \<open>2^16\<close> computes the square
  \<open>2^32\<close> of the factor, which is not an \<^verbatim>\<open>int\<close>; no \<^verbatim>\<open>int\<close> is the product of the
  coefficient 1 with it.
\<close>

theorem C7_scale_unscale_frame_counterexample:
  "4 \<le> length [0, 1, 0, 0 :: int] \<and> list_all canonical [0, 1, 0, 0] \<and> canonical 0
   \<and> unscale_fin [0, 1, 0, 0] 0 = None
   \<and> scale_cpx [\<lparr>re = 0, im = 0\<rparr>, \<lparr>re = 0, im = 0\<rparr>, \<lparr>re = 1, im = 0\<rparr>, \<lparr>re = 0, im = 0\<rparr>]
        \<lparr>re = 65536, im = 0\<rparr>
      = None
   \<and> times_cpx \<lparr>re = 1, im = 0\<rparr> (power_cpx \<lparr>re = 65536, im = 0\<rparr> 2) = \<lparr>re = 4294967296, im = 0\<rparr>
   \<and> \<not> in_range 4294967296"
  by code_simp


end
